theory Spec2Isabelle
  imports Complex_Main "HOL-Library.Multiset"
begin

section \<open>Python exceptions\<close>

text \<open>
  The exceptions the modelled functions can raise. A function that may raise returns
  \<open>pyerr + 'a\<close>, with \<open>Inl\<close> carrying the exception.
\<close>

datatype pyerr = KeyError | TypeError | AssertionError

section \<open>Axes and variables (var.py)\<close>

text \<open>
  The class \<open>Axis\<close> is not part of the sources at hand; an axis is represented by what the
  modelled functions ask of it: its class (given by the names of the class and of all its
  base classes), the names answered by \<open>has_alias\<close>, its coordinate values (\<open>len(a)\<close> is
  their number), and the optional \<open>weights\<close> attribute.  Equality of axes (\<open>a == iaxis\<close>) is
  equality of these components.
\<close>

record axis =
  ax_class :: "string list"
  ax_aliases :: "string list"
  ax_values :: "real list"
  ax_weights :: "real list option"

definition has_alias :: "axis \<Rightarrow> string \<Rightarrow> bool" where
  "has_alias a name = (name \<in> set (ax_aliases a))"

definition len_axis :: "axis \<Rightarrow> nat" where
  "len_axis a = length (ax_values a)"

text \<open>\<open>isinstance(a, cls)\<close> for a class given by its own name followed by its bases.\<close>

definition isinstance_axis :: "axis \<Rightarrow> string list \<Rightarrow> bool" where
  "isinstance_axis a cls = (cls \<noteq> [] \<and> hd cls \<in> set (ax_class a))"

text \<open>
  An axis identifier as accepted by \<open>whichaxis\<close>: a string, an integer, an axis object, a
  class, or any other Python object (a float, \<open>None\<close>, ...).
\<close>

datatype ident =
    IStr string
  | IInt int
  | IAxis axis
  | IClass "string list"
  | IOther

text \<open>
  \<open>issubclass(iaxis, Axis)\<close>: Python raises \<open>TypeError\<close> when the first argument is not a
  class.
\<close>

definition issubclass_Axis :: "ident \<Rightarrow> pyerr + bool" where
  "issubclass_Axis x = (case x of IClass cls \<Rightarrow> Inr (''Axis'' \<in> set cls) | _ \<Rightarrow> Inl TypeError)"

datatype dtype = Float64 | Float32 | Int64 | Int32

text \<open>An in-memory array: element type, shape and the elements in row-major order.\<close>

record ndarray =
  nd_dtype :: dtype
  nd_shape :: "nat list"
  nd_data :: "real list"

record var =
  v_axes :: "axis list"
  v_dtype :: dtype
  v_name :: string
  v_atts :: "(string \<times> string) list"
  v_values :: "ndarray option"

definition naxes :: "'a var_scheme \<Rightarrow> nat" where
  "naxes v = length (v_axes v)"

definition shape :: "'a var_scheme \<Rightarrow> nat list" where
  "shape v = map len_axis (v_axes v)"

definition size_var :: "'a var_scheme \<Rightarrow> nat" where
  "size_var v = foldl (\<lambda>x y. x * y) 1 (shape v)"

text \<open>\<open>hasattr(v, 'values')\<close>: the attribute exists only when values were stored.\<close>

definition has_values :: "'a var_scheme \<Rightarrow> bool" where
  "has_values v = (v_values v \<noteq> None)"

text \<open>
  \<open>Var.__init__(self, axes, dtype, name, values, atts)\<close>.  The element type is taken from the
  values when no \<open>dtype\<close> is given; with neither, \<open>TypeError\<close>.  Stored values are converted
  to the element type and must have the shape of the axes.
\<close>

definition Var_init ::
  "axis list \<Rightarrow> dtype option \<Rightarrow> string option \<Rightarrow> ndarray option \<Rightarrow>
   (string \<times> string) list option \<Rightarrow> pyerr + var" where
  "Var_init axs dt nm vals atts =
     (case (case dt of
              Some d \<Rightarrow> Inr d
            | None \<Rightarrow> (case vals of Some a \<Rightarrow> Inr (nd_dtype a) | None \<Rightarrow> Inl TypeError)) of
        Inl e \<Rightarrow> Inl e
      | Inr d \<Rightarrow>
          (case vals of
             Some a \<Rightarrow>
               if length (nd_shape a) \<noteq> length axs then Inl AssertionError
               else if nd_shape a \<noteq> map len_axis axs then Inl AssertionError
               else Inr \<lparr> v_axes = axs, v_dtype = d,
                          v_name = (case nm of Some n \<Rightarrow> n | None \<Rightarrow> ''''),
                          v_atts = (case atts of Some t \<Rightarrow> t | None \<Rightarrow> []),
                          v_values = Some (a\<lparr>nd_dtype := d\<rparr>) \<rparr>
           | None \<Rightarrow>
               Inr \<lparr> v_axes = axs, v_dtype = d,
                      v_name = (case nm of Some n \<Rightarrow> n | None \<Rightarrow> ''''),
                      v_atts = (case atts of Some t \<Rightarrow> t | None \<Rightarrow> []),
                      v_values = None \<rparr>))"

text \<open>
  The loops \<open>for i,a in enumerate(self.axes): if ...: return i\<close>: the position of the first
  axis that passes the test, if any.
\<close>

fun first_index :: "('a \<Rightarrow> bool) \<Rightarrow> 'a list \<Rightarrow> nat option" where
  "first_index P [] = None"
| "first_index P (x # xs) = (if P x then Some 0 else map_option Suc (first_index P xs))"

text \<open>
  \<open>Var.whichaxis\<close>.  The branches are those of the source, in its order; a loop that finds
  nothing falls through to the final \<open>raise KeyError\<close>.  An integer outside
  \<open>0 <= iaxis < len(self.axes)\<close> fails the second test, is no \<open>Axis\<close> instance, and so reaches
  \<open>issubclass(iaxis, Axis)\<close>.
\<close>

definition whichaxis :: "'a var_scheme \<Rightarrow> ident \<Rightarrow> pyerr + nat" where
  "whichaxis v iaxis =
     (case iaxis of
        IStr name \<Rightarrow>
          (case first_index (\<lambda>a. has_alias a name) (v_axes v) of
             Some i \<Rightarrow> Inr i | None \<Rightarrow> Inl KeyError)
      | IInt i \<Rightarrow>
          if 0 \<le> i \<and> i < int (length (v_axes v)) then Inr (nat i)
          else (case issubclass_Axis iaxis of
                  Inl e \<Rightarrow> Inl e
                | Inr b \<Rightarrow> Inl KeyError)
      | IAxis x \<Rightarrow>
          (case first_index (\<lambda>a. a = x) (v_axes v) of
             Some i \<Rightarrow> Inr i | None \<Rightarrow> Inl KeyError)
      | IClass cls \<Rightarrow>
          (case issubclass_Axis iaxis of
             Inl e \<Rightarrow> Inl e
           | Inr b \<Rightarrow>
               if b then
                 (case first_index (\<lambda>a. isinstance_axis a cls) (v_axes v) of
                    Some i \<Rightarrow> Inr i | None \<Rightarrow> Inl KeyError)
               else Inl KeyError)
      | IOther \<Rightarrow>
          (case issubclass_Axis iaxis of
             Inl e \<Rightarrow> Inl e
           | Inr b \<Rightarrow> Inl KeyError))"

text \<open>\<open>Var.getaxis\<close>: \<open>self.axes[self.whichaxis(iaxis)]\<close>.\<close>

definition getaxis :: "'a var_scheme \<Rightarrow> ident \<Rightarrow> pyerr + axis" where
  "getaxis v iaxis =
     (case whichaxis v iaxis of Inl e \<Rightarrow> Inl e | Inr i \<Rightarrow> Inr (v_axes v ! i))"

text \<open>
  \<open>Var.hasaxis\<close>: only \<open>KeyError\<close> is caught and answered with \<open>False\<close>; any other exception
  propagates.
\<close>

definition hasaxis :: "'a var_scheme \<Rightarrow> ident \<Rightarrow> pyerr + bool" where
  "hasaxis v iaxis =
     (case whichaxis v iaxis of
        Inl KeyError \<Rightarrow> Inr False
      | Inl e \<Rightarrow> Inl e
      | Inr i \<Rightarrow> Inr True)"

text \<open>Two example axes and an example variable on them, without stored values.\<close>

definition lat_axis :: axis where
  "lat_axis = \<lparr> ax_class = [''Lat'', ''YAxis'', ''Axis''], ax_aliases = [''lat''],
                ax_values = [-45, 45], ax_weights = Some [1, 2] \<rparr>"

definition lon_axis :: axis where
  "lon_axis = \<lparr> ax_class = [''Lon'', ''XAxis'', ''Axis''], ax_aliases = [''lon''],
                ax_values = [0, 120, 240], ax_weights = None \<rparr>"

definition temp_var :: var where
  "temp_var = \<lparr> v_axes = [lat_axis, lon_axis], v_dtype = Float64, v_name = ''Temp'',
                v_atts = [], v_values = None \<rparr>"

section \<open>Reductions: construction (reduce.py)\<close>

record reducedvar = var +
  rv_N :: nat
  rv_var :: var
  rv_indices :: "nat list"
  rv_in_axes :: "axis list"

text \<open>
  The list comprehension \<open>[var.whichaxis(i) for i in indices]\<close>: the first identifier that
  raises ends the whole comprehension with its exception.
\<close>

fun whichaxes :: "var \<Rightarrow> ident list \<Rightarrow> pyerr + nat list" where
  "whichaxes v [] = Inr []"
| "whichaxes v (i # is) =
     (case whichaxis v i of
        Inl e \<Rightarrow> Inl e
      | Inr k \<Rightarrow> (case whichaxes v is of Inl e \<Rightarrow> Inl e | Inr ks \<Rightarrow> Inr (k # ks)))"

text \<open>
  \<open>ReducedVar.__init__(self, var, indices)\<close> for a single input variable (the branch
  \<open>axes = var.axes; dtype = var.dtype\<close>).
\<close>

definition ReducedVar_init :: "var \<Rightarrow> ident list \<Rightarrow> pyerr + reducedvar" where
  "ReducedVar_init v indices =
     (case whichaxes v indices of
        Inl e \<Rightarrow> Inl e
      | Inr ks \<Rightarrow>
          (let idx = sort ks in
           if \<not> (0 < length idx) then Inl AssertionError
           else
             (let N = prod_list (map (\<lambda>i. len_axis (v_axes v ! i)) idx);
                  axs = map snd (filter (\<lambda>(i, a). i \<notin> set idx) (enumerate 0 (v_axes v)))
              in case Var_init axs (Some (v_dtype v)) (Some (v_name v)) None (Some (v_atts v)) of
                   Inl e \<Rightarrow> Inl e
                 | Inr b \<Rightarrow>
                     Inr \<lparr> v_axes = v_axes b, v_dtype = v_dtype b, v_name = v_name b,
                            v_atts = v_atts b, v_values = v_values b,
                            rv_N = N, rv_var = v, rv_indices = idx,
                            rv_in_axes = v_axes v \<rparr>)))"

text \<open>
  What a call \<open>SomeReducedVar(var, indices)\<close> hands back: the lazy node itself, the variable
  obtained from it by \<open>load(pbar=None)\<close> (computed at once and held in memory), or the
  scalar obtained by \<open>get()\<close>.
\<close>

datatype reduced_result = Lazy reducedvar | Loaded reducedvar | Scalar reducedvar

text \<open>
  \<open>ReducedVar.__new__(type, var, indices)\<close> for a single variable (\<open>varlist = [var]\<close>),
  followed, in the last branch, by the call of \<open>__init__\<close> that Python makes on the
  instance \<open>__new__\<close> returned.
\<close>

definition ReducedVar_new :: "var \<Rightarrow> ident list \<Rightarrow> pyerr + reduced_result" where
  "ReducedVar_new v indices =
     (if length indices = 0 then
        (case ReducedVar_init v (map (\<lambda>k. IInt (int k)) [0..<naxes v]) of
           Inl e \<Rightarrow> Inl e | Inr r \<Rightarrow> Inr (Scalar r))
      else if list_all has_values [v] then
        (case ReducedVar_init v indices of
           Inl e \<Rightarrow> Inl e | Inr r \<Rightarrow> Inr (Loaded r))
      else
        (case ReducedVar_init v indices of
           Inl e \<Rightarrow> Inl e | Inr r \<Rightarrow> Inr (Lazy r)))"

fun is_lazy :: "pyerr + reduced_result \<Rightarrow> bool" where
  "is_lazy (Inr (Lazy r)) = True"
| "is_lazy x = False"

fun is_loaded :: "pyerr + reduced_result \<Rightarrow> bool" where
  "is_loaded (Inr (Loaded r)) = True"
| "is_loaded x = False"

text \<open>The example variable with its six values held in memory.\<close>

definition temp_mem :: var where
  "temp_mem = temp_var \<lparr> v_values :=
     Some \<lparr> nd_dtype = Float64, nd_shape = [2, 3], nd_data = [1, 2, 3, 4, 5, 6] \<rparr> \<rparr>"

section \<open>Floating-point values\<close>

text \<open>
  A \<open>float64\<close> element is a finite number, one of the two infinities, or NaN.  Finite
  numbers are idealised as reals: rounding and overflow are not modelled, and the sign
  of a zero is ignored.  The special values combine as in IEEE 754 arithmetic.
\<close>

datatype fl = Fin real | PInf | NInf | NaN

fun isnan :: "fl \<Rightarrow> bool" where
  "isnan NaN = True"
| "isnan x = False"

fun isfinite :: "fl \<Rightarrow> bool" where
  "isfinite (Fin a) = True"
| "isfinite x = False"

fun fadd :: "fl \<Rightarrow> fl \<Rightarrow> fl" where
  "fadd (Fin a) (Fin b) = Fin (a + b)"
| "fadd NaN y = NaN"
| "fadd x NaN = NaN"
| "fadd PInf NInf = NaN"
| "fadd NInf PInf = NaN"
| "fadd PInf y = PInf"
| "fadd x PInf = PInf"
| "fadd NInf y = NInf"
| "fadd x NInf = NInf"

fun fneg :: "fl \<Rightarrow> fl" where
  "fneg (Fin a) = Fin (- a)"
| "fneg PInf = NInf"
| "fneg NInf = PInf"
| "fneg NaN = NaN"

text \<open>The infinity with the sign of \<open>s\<close>; NaN for \<open>s = 0\<close> (as in \<open>0 * inf\<close> and \<open>0 / 0\<close>).\<close>

definition inf_of_sign :: "real \<Rightarrow> fl" where
  "inf_of_sign s = (if s = 0 then NaN else if 0 < s then PInf else NInf)"

fun fmul :: "fl \<Rightarrow> fl \<Rightarrow> fl" where
  "fmul (Fin a) (Fin b) = Fin (a * b)"
| "fmul NaN y = NaN"
| "fmul x NaN = NaN"
| "fmul (Fin a) PInf = inf_of_sign a"
| "fmul (Fin a) NInf = inf_of_sign (- a)"
| "fmul PInf (Fin b) = inf_of_sign b"
| "fmul NInf (Fin b) = inf_of_sign (- b)"
| "fmul PInf PInf = PInf"
| "fmul PInf NInf = NInf"
| "fmul NInf PInf = NInf"
| "fmul NInf NInf = PInf"

text \<open>
  Division of arrays does not raise in numpy: a finite non-zero number over zero is an
  infinity, zero over zero is NaN.
\<close>

fun fdiv :: "fl \<Rightarrow> fl \<Rightarrow> fl" where
  "fdiv (Fin a) (Fin b) = (if b = 0 then inf_of_sign a else Fin (a / b))"
| "fdiv NaN y = NaN"
| "fdiv x NaN = NaN"
| "fdiv (Fin a) PInf = Fin 0"
| "fdiv (Fin a) NInf = Fin 0"
| "fdiv PInf (Fin b) = (if 0 \<le> b then PInf else NInf)"
| "fdiv NInf (Fin b) = (if 0 \<le> b then NInf else PInf)"
| "fdiv x y = NaN"

fun fsqrt :: "fl \<Rightarrow> fl" where
  "fsqrt (Fin a) = (if a < 0 then NaN else Fin (sqrt a))"
| "fsqrt PInf = PInf"
| "fsqrt NInf = NaN"
| "fsqrt NaN = NaN"

text \<open>The comparison \<open>a <= b\<close>: false whenever NaN takes part.\<close>

fun fle :: "fl \<Rightarrow> fl \<Rightarrow> bool" where
  "fle NaN y = False"
| "fle x NaN = False"
| "fle NInf y = True"
| "fle x PInf = True"
| "fle (Fin a) (Fin b) = (a \<le> b)"
| "fle x y = False"

text \<open>\<open>np.minimum\<close> and \<open>np.maximum\<close>: NaN when either argument is NaN.\<close>

definition fmin :: "fl \<Rightarrow> fl \<Rightarrow> fl" where
  "fmin a b = (if isnan a \<or> isnan b then NaN else if fle a b then a else b)"

definition fmax :: "fl \<Rightarrow> fl \<Rightarrow> fl" where
  "fmax a b = (if isnan a \<or> isnan b then NaN else if fle a b then b else a)"

instantiation fl :: "{zero, one, plus, minus, uminus, times, inverse}"
begin

definition zero_fl :: fl where "zero_fl = Fin 0"

definition one_fl :: fl where "one_fl = Fin 1"

definition plus_fl :: "fl \<Rightarrow> fl \<Rightarrow> fl" where "plus_fl = fadd"

definition uminus_fl :: "fl \<Rightarrow> fl" where "uminus_fl = fneg"

definition minus_fl :: "fl \<Rightarrow> fl \<Rightarrow> fl" where "minus_fl a b = fadd a (fneg b)"

definition times_fl :: "fl \<Rightarrow> fl \<Rightarrow> fl" where "times_fl = fmul"

definition divide_fl :: "fl \<Rightarrow> fl \<Rightarrow> fl" where "divide_fl = fdiv"

definition inverse_fl :: "fl \<Rightarrow> fl" where "inverse_fl = fdiv (Fin 1)"

instance ..

end

lemma fadd_commute: "fadd a b = fadd b a"
  by (cases a; cases b) simp_all

lemma fadd_assoc: "fadd (fadd a b) c = fadd a (fadd b c)"
  by (cases a; cases b; cases c) simp_all

text \<open>Addition is associative and commutative with unit \<open>0\<close>, so sums over lists and
  multisets of elements are available.\<close>

instance fl :: comm_monoid_add
proof
  fix a b c :: fl
  show "a + b + c = a + (b + c)" by (simp add: plus_fl_def fadd_assoc)
  show "a + b = b + a" by (simp add: plus_fl_def fadd_commute)
  show "0 + a = a" by (cases a) (simp_all add: plus_fl_def zero_fl_def)
qed

text \<open>A Python integer used as an operand of a \<open>float64\<close> array.\<close>

definition fl_of_int :: "int \<Rightarrow> fl" where
  "fl_of_int n = Fin (of_int n)"

section \<open>Reductions: evaluation in chunks (reduce.py)\<close>

text \<open>
  The output of a reduction is an array with one element for every combination of
  coordinates on the axes that are kept; these elements are numbered \<open>0, ..., m - 1\<close>
  (\<open>view.shape\<close> flattened).  The elements of the input that are reduced into output
  position \<open>p\<close> are the contributions to \<open>p\<close>.

  Modelled from the spec: \<open>loopover\<close> of \<open>pygeode.tools\<close> is not among the sources.  It
  cuts the input region into memory-sized chunks that cover it exactly once, and yields
  for each chunk the slice \<open>outsl\<close> of the output it contributes to, and its data
  \<open>indata\<close>.  A chunk is represented by the list of the output positions in \<open>outsl\<close>, each
  with the elements of \<open>indata\<close> that contribute to it.
\<close>

type_synonym 'a chunk = "(nat \<times> 'a list) list"

text \<open>
  An accumulator array is a function from positions to elements; \<open>as_array m\<close> reads off
  the \<open>m\<close> elements of the output.  \<open>update_slice f c out\<close> is one statement
  \<open>out[outsl] = f(out[outsl], indata)\<close>, and \<open>for_chunks\<close> the loop
  \<open>for outsl, (indata,) in loopover(...)\<close> around it.
\<close>

definition as_array :: "nat \<Rightarrow> (nat \<Rightarrow> 's) \<Rightarrow> 's list" where
  "as_array m out = map out [0..<m]"

definition update_slice :: "('s \<Rightarrow> 'a list \<Rightarrow> 's) \<Rightarrow> 'a chunk \<Rightarrow> (nat \<Rightarrow> 's) \<Rightarrow> (nat \<Rightarrow> 's)" where
  "update_slice f c out = fold (\<lambda>(p, indata) a. a(p := f (a p) indata)) c out"

definition for_chunks ::
  "('s \<Rightarrow> 'a list \<Rightarrow> 's) \<Rightarrow> 'a chunk list \<Rightarrow> (nat \<Rightarrow> 's) \<Rightarrow> (nat \<Rightarrow> 's)" where
  "for_chunks f chunks out = fold (update_slice f) chunks out"

text \<open>
  Modelled from the spec: \<open>npsum\<close>, \<open>npnansum\<close>, \<open>npmin\<close> and \<open>npmax\<close> of \<open>pygeode.tools\<close>
  are not among the sources.  They apply numpy's \<open>sum\<close>, \<open>nansum\<close>, \<open>min\<close> and \<open>max\<close> over
  the reduced axes of a chunk; here they take the elements that contribute to one output
  position.  \<open>nansum\<close> treats NaN as absent and, as the spec states, gives NaN when
  nothing but NaN is summed (the behaviour of the numpy releases this code was written
  for).  \<open>nansum2 a b\<close> is \<open>np.nansum([a, b], 0)\<close> at one position.
\<close>

definition npsum :: "fl list \<Rightarrow> fl" where
  "npsum indata = sum_list indata"

definition npnansum :: "fl list \<Rightarrow> fl" where
  "npnansum indata =
     (if list_all isnan indata then NaN else sum_list (filter (\<lambda>x. \<not> isnan x) indata))"

definition nansum2 :: "fl \<Rightarrow> fl \<Rightarrow> fl" where
  "nansum2 a b = npnansum [a, b]"

definition npmin :: "fl list \<Rightarrow> fl" where
  "npmin indata = fold fmin (tl indata) (hd indata)"

definition npmax :: "fl list \<Rightarrow> fl" where
  "npmax indata = fold fmax (tl indata) (hd indata)"

text \<open>\<open>MinVar.getview\<close> and \<open>MaxVar.getview\<close>.\<close>

definition MinVar_getview :: "nat \<Rightarrow> fl chunk list \<Rightarrow> fl list" where
  "MinVar_getview m chunks =
     as_array m (for_chunks (\<lambda>out indata. fmin out (npmin indata)) chunks (\<lambda>p. PInf))"

definition MaxVar_getview :: "nat \<Rightarrow> fl chunk list \<Rightarrow> fl list" where
  "MaxVar_getview m chunks =
     as_array m (for_chunks (\<lambda>out indata. fmax out (npmax indata)) chunks (\<lambda>p. NInf))"

text \<open>\<open>SumVar.getview\<close>.\<close>

definition SumVar_getview :: "nat \<Rightarrow> fl chunk list \<Rightarrow> fl list" where
  "SumVar_getview m chunks =
     as_array m (for_chunks (\<lambda>out indata. out + npsum indata) chunks (\<lambda>p. 0))"

text \<open>\<open>NANSumVar.getview\<close>; the accumulator starts as \<open>np.zeros(...)*np.nan\<close>.\<close>

definition NANSumVar_getview :: "nat \<Rightarrow> fl chunk list \<Rightarrow> fl list" where
  "NANSumVar_getview m chunks =
     as_array m (for_chunks (\<lambda>out indata. nansum2 out (npnansum indata)) chunks (\<lambda>p. 0 * NaN))"

text \<open>\<open>MeanVar.getview\<close>; \<open>N\<close> is \<open>self.N\<close>, the number of values reduced into one element.\<close>

definition MeanVar_getview :: "nat \<Rightarrow> nat \<Rightarrow> fl chunk list \<Rightarrow> fl list" where
  "MeanVar_getview m N chunks =
     map (\<lambda>out. out / fl_of_int (int N))
       (as_array m (for_chunks (\<lambda>out indata. out + npsum indata) chunks (\<lambda>p. 0)))"

text \<open>\<open>NANMeanVar.getview\<close>, with the two accumulators \<open>out\<close> and \<open>N\<close> side by side.\<close>

definition NANMeanVar_getview :: "nat \<Rightarrow> fl chunk list \<Rightarrow> fl list" where
  "NANMeanVar_getview m chunks =
     map (\<lambda>(out, n). out / n)
       (as_array m
          (for_chunks
             (\<lambda>(out, n) indata.
                (nansum2 out (npnansum indata),
                 nansum2 n (npnansum (map (\<lambda>x. 1 + x * 0) indata))))
             chunks (\<lambda>p. (0 * NaN, 0 * NaN))))"

text \<open>
  The variance is evaluated below for floating-point and for integer data, whose
  arithmetic differs; its model takes the arithmetic of the element type as a parameter.
\<close>

record 'a npops =
  np_zero :: 'a
  np_add :: "'a \<Rightarrow> 'a \<Rightarrow> 'a"
  np_sub :: "'a \<Rightarrow> 'a \<Rightarrow> 'a"
  np_mul :: "'a \<Rightarrow> 'a \<Rightarrow> 'a"
  np_div :: "'a \<Rightarrow> 'a \<Rightarrow> 'a"
  np_of_int :: "int \<Rightarrow> 'a"
  np_le0 :: "'a \<Rightarrow> bool"
  np_sqrt :: "'a \<Rightarrow> fl"

definition float64 :: "fl npops" where
  "float64 = \<lparr> np_zero = 0, np_add = (\<lambda>a b. a + b), np_sub = (\<lambda>a b. a - b),
               np_mul = (\<lambda>a b. a * b), np_div = (\<lambda>a b. a / b), np_of_int = fl_of_int,
               np_le0 = (\<lambda>v. fle v 0), np_sqrt = fsqrt \<rparr>"

text \<open>
  64-bit integers wrap around.  Under Python 2, \<open>/\<close> on integer arrays is floor division,
  and numpy answers a division by zero with \<open>0\<close>.
\<close>

definition wrap64 :: "int \<Rightarrow> int" where
  "wrap64 x = (x + 2 ^ 63) mod 2 ^ 64 - 2 ^ 63"

definition int64 :: "int npops" where
  "int64 = \<lparr> np_zero = 0, np_add = (\<lambda>a b. wrap64 (a + b)), np_sub = (\<lambda>a b. wrap64 (a - b)),
             np_mul = (\<lambda>a b. wrap64 (a * b)),
             np_div = (\<lambda>a b. if b = 0 then 0 else wrap64 (a div b)),
             np_of_int = wrap64, np_le0 = (\<lambda>v. v \<le> 0),
             np_sqrt = (\<lambda>v. fsqrt (Fin (of_int v))) \<rparr>"

definition npsum_of :: "'a npops \<Rightarrow> 'a list \<Rightarrow> 'a" where
  "npsum_of ops indata = fold (\<lambda>v s. np_add ops s v) indata (np_zero ops)"

text \<open>
  \<open>VarianceVar.getview\<close>: the accumulators \<open>x\<close> and \<open>x2\<close>, then \<open>x /= N\<close> and
  \<open>(x2 - N*x**2) / (N - 1)\<close>.
\<close>

definition VarianceVar_getview :: "'a npops \<Rightarrow> nat \<Rightarrow> nat \<Rightarrow> 'a chunk list \<Rightarrow> 'a list" where
  "VarianceVar_getview ops m N chunks =
     map (\<lambda>(x, x2).
            (let x' = np_div ops x (np_of_int ops (int N))
             in np_div ops
                  (np_sub ops x2 (np_mul ops (np_of_int ops (int N)) (np_mul ops x' x')))
                  (np_of_int ops (int N - 1))))
       (as_array m
          (for_chunks
             (\<lambda>(x, x2) indata.
                (np_add ops x (npsum_of ops indata),
                 np_add ops x2 (npsum_of ops (map (\<lambda>v. np_mul ops v v) indata))))
             chunks (\<lambda>p. (np_zero ops, np_zero ops))))"

text \<open>
  \<open>SDVar.getview\<close>: variances that are not positive are set to \<open>0\<close> before the square
  root (the scalar branch tests \<open>< 0\<close>, the array branch \<open><= 0\<close>, with the same effect).
\<close>

definition SDVar_getview :: "'a npops \<Rightarrow> nat \<Rightarrow> nat \<Rightarrow> 'a chunk list \<Rightarrow> fl list" where
  "SDVar_getview ops m N chunks =
     map (\<lambda>variance. np_sqrt ops (if np_le0 ops variance then np_zero ops else variance))
       (VarianceVar_getview ops m N chunks)"

text \<open>
  \<open>NANVarianceVar.getview\<close>, for an output with at least one axis.  After the loop,
  \<open>zeros = np.where(N <= 1.)[0]\<close> holds the index on the first axis of every position
  where the count \<open>N\<close> is at most \<open>1\<close>, and \<open>x[zeros] = np.nan\<close> sets every element of \<open>x\<close>
  with such an index on the first axis to NaN, likewise for \<open>x2\<close>; then
  \<open>(x2 - x**2/N) / (N - 1.)\<close>.  Position \<open>p\<close> of the flattened output has the index
  \<open>p div inner\<close> on the first axis, where \<open>inner\<close> is the product of the lengths of the
  other axes of the output (\<open>1\<close> when the output has one axis).
\<close>

definition first_axis_index :: "nat \<Rightarrow> nat \<Rightarrow> nat" where
  "first_axis_index inner p = p div inner"

definition NANVarianceVar_getview :: "nat \<Rightarrow> nat \<Rightarrow> fl chunk list \<Rightarrow> fl list" where
  "NANVarianceVar_getview m inner chunks =
     (let acc = for_chunks
                  (\<lambda>(x, x2, n) indata.
                     (nansum2 x (npnansum indata),
                      nansum2 x2 (npnansum (map (\<lambda>v. v * v) indata)),
                      nansum2 n (npnansum (map (\<lambda>v. 1 + v * 0) indata))))
                  chunks (\<lambda>p. (0 * NaN, 0 * NaN, 0 * NaN));
          zeros = map (first_axis_index inner)
                    (filter (\<lambda>p. case acc p of (x, x2, n) \<Rightarrow> fle n 1) [0..<m])
      in map (\<lambda>p. case acc p of (x, x2, n) \<Rightarrow>
                 (let x' = (if first_axis_index inner p \<in> set zeros then NaN else x);
                      x2' = (if first_axis_index inner p \<in> set zeros then NaN else x2)
                  in (x2' - x' * x' / n) / (n - 1)))
           [0..<m])"

text \<open>\<open>NANSDVar.getview\<close>.\<close>

definition NANSDVar_getview :: "nat \<Rightarrow> nat \<Rightarrow> fl chunk list \<Rightarrow> fl list" where
  "NANSDVar_getview m inner chunks =
     map (\<lambda>variance. fsqrt (if fle variance 0 then 0 else variance))
       (NANVarianceVar_getview m inner chunks)"

text \<open>
  The elements a list of chunks contributes to output position \<open>p\<close>: chunk by chunk
  (\<open>rows\<close>), and all together (\<open>contribs\<close>).
\<close>

definition rows :: "'a chunk list \<Rightarrow> nat \<Rightarrow> 'a list list" where
  "rows chunks p = map snd (filter (\<lambda>e. fst e = p) (concat chunks))"

definition contribs :: "'a chunk list \<Rightarrow> nat \<Rightarrow> 'a list" where
  "contribs chunks p = concat (rows chunks p)"

text \<open>
  \<open>chunking_of x chunks\<close>: the chunks are a way of cutting up the input \<open>x\<close>, given as the
  list, for every output position, of the elements reduced into it.  Every chunk names
  an output position at most once and holds at least one element for it, and the chunks
  together hold every element of the input exactly once.
\<close>

definition chunking_of :: "'a list list \<Rightarrow> 'a chunk list \<Rightarrow> bool" where
  "chunking_of x chunks =
     (list_all (\<lambda>c. distinct (map fst c) \<and> list_all (\<lambda>e. fst e < length x \<and> snd e \<noteq> []) c) chunks
      \<and> list_all (\<lambda>p. mset (contribs chunks p) = mset (x ! p)) [0..<length x])"

section \<open>Temporal aggregates (climat.py)\<close>

text \<open>
  The output of a temporal aggregate is addressed by the position \<open>q\<close> of an element on
  the axes other than time (flattened) and by its bin \<open>b\<close> on the output time axis.

  Modelled from the spec: \<open>View\<close>, \<open>Time.common_map\<close> and \<open>reltime\<close>, which \<open>loopover\<close> of
  climat.py and \<open>Trend.getview\<close> call, are not among the sources.  \<open>common_map\<close> gives
  every position of the input time axis its bin on the output time axis, and
  \<open>reltime(units='seconds')\<close> its time in seconds since the start of the axis.  The input
  time axis enters the model as the list \<open>steps\<close> of these pairs (bin, seconds), one for
  every position.  \<open>loopover\<close> cuts the input into chunks and yields for each chunk the
  slices of the output it belongs to, its data and the bins of its time steps; a chunk is
  represented by the list of the positions \<open>q\<close> in its slices, each with the elements of the
  chunk at \<open>q\<close>, every element paired with the bin of its time step.
\<close>

type_synonym 'a tchunk = "(nat \<times> 'a) chunk"

text \<open>
  Modelled from the spec: \<open>partial_sum(data, slices, sum, count, ti, bins)\<close> of
  \<open>pygeode.tools\<close> is not among the sources.  It adds every element of the chunk to the
  element of \<open>sum\<close> at the element's position and bin, and \<open>1\<close> to that element of
  \<open>count\<close>; \<open>bin_add q\<close> does so for one element at position \<open>q\<close>, on the pair of the two
  arrays.
\<close>

type_synonym accs = "(nat \<times> nat \<Rightarrow> fl) \<times> (nat \<times> nat \<Rightarrow> int)"

definition bin_add :: "nat \<Rightarrow> nat \<times> fl \<Rightarrow> accs \<Rightarrow> accs" where
  "bin_add q e sc =
     (case e of (b, v) \<Rightarrow>
        (case sc of (s, c) \<Rightarrow>
           (s((q, b) := s (q, b) + v), c((q, b) := c (q, b) + 1))))"

definition partial_sum :: "fl tchunk \<Rightarrow> accs \<Rightarrow> accs" where
  "partial_sum data sc = fold (\<lambda>(q, elems). fold (bin_add q) elems) data sc"

text \<open>The data of a chunk after an elementwise operation (\<open>data*t\<close>, \<open>t**2\<close>, ...).\<close>

definition chunk_map :: "('a \<Rightarrow> 'b) \<Rightarrow> 'a tchunk \<Rightarrow> 'b tchunk" where
  "chunk_map h c = map (\<lambda>(q, elems). (q, map (\<lambda>(b, v). (b, h v)) elems)) c"

text \<open>The output array of shape \<open>(nq, nbins)\<close> with the element \<open>cell (q, b)\<close> at \<open>q, b\<close>.\<close>

definition as_array2 :: "nat \<Rightarrow> nat \<Rightarrow> (nat \<times> nat \<Rightarrow> 's) \<Rightarrow> 's list list" where
  "as_array2 nq nbins cell = map (\<lambda>q. map (\<lambda>b. cell (q, b)) [0..<nbins]) [0..<nq]"

text \<open>
  \<open>Mean.getview\<close>: the loop over the chunks, then \<open>sum /= count\<close>.  Here \<open>count\<close> is an
  array of 32-bit integers (\<open>dtype='int32'\<close>), whose elements wrap around: \<open>as_int32\<close>
  is what the array holds after \<open>partial_sum\<close> has added to it.
\<close>

definition wrap32 :: "int \<Rightarrow> int" where
  "wrap32 x = (x + 2 ^ 31) mod 2 ^ 32 - 2 ^ 31"

definition as_int32 :: "accs \<Rightarrow> accs" where
  "as_int32 sc = (case sc of (s, c) \<Rightarrow> (s, \<lambda>k. wrap32 (c k)))"

definition Mean_getview :: "nat \<Rightarrow> nat \<Rightarrow> fl tchunk list \<Rightarrow> fl list list" where
  "Mean_getview nq nbins chunks =
     (case fold (\<lambda>data sc. as_int32 (partial_sum data sc)) chunks (\<lambda>k. 0, \<lambda>k. 0) of
        (s, c) \<Rightarrow> as_array2 nq nbins (\<lambda>k. s k / fl_of_int (c k)))"

text \<open>
  \<open>Trend.__init__\<close> with \<open>TimeOp.__init__\<close>.  The output time axis \<open>outtime\<close>, which
  \<open>get_outtime\<close> computes with \<open>modify\<close> (not among the sources), is a parameter;
  \<open>get_intime\<close> of \<open>Clim\<close> returns the input axis itself.  The name is extended by the
  suffixes \<open>_clim\<close> and \<open>_trend\<close>, and the coefficient axis \<open>Coef(2)\<close> is appended.
\<close>

definition CalendarTime :: ident where
  "CalendarTime = IClass [''CalendarTime'', ''Time'', ''TAxis'', ''Axis'']"

definition Coef2 :: axis where
  "Coef2 = \<lparr> ax_class = [''Coef'', ''Axis''], ax_aliases = [''coef''],
             ax_values = [0, 1], ax_weights = None \<rparr>"

record timeop = var +
  to_ti :: nat
  to_var :: var

definition TimeOp_init :: "axis \<Rightarrow> axis list \<Rightarrow> string \<Rightarrow> var \<Rightarrow> pyerr + timeop" where
  "TimeOp_init outtime extra_dims name_suffix v =
     (case whichaxis v CalendarTime of
        Inl e \<Rightarrow> Inl e
      | Inr ti \<Rightarrow>
          (case Var_init ((v_axes v)[ti := outtime] @ extra_dims) (Some (v_dtype v)) None None None of
             Inl e \<Rightarrow> Inl e
           | Inr b \<Rightarrow>
               Inr \<lparr> v_axes = v_axes b, v_dtype = v_dtype b,
                      v_name = (if v_name v \<noteq> '''' then v_name v @ name_suffix else v_name b),
                      v_atts = v_atts b, v_values = v_values b,
                      to_ti = ti, to_var = v \<rparr>))"

definition Trend_init :: "axis \<Rightarrow> var \<Rightarrow> pyerr + timeop" where
  "Trend_init outtime v =
     (case TimeOp_init outtime [Coef2] ''_clim_trend'' v of
        Inl e \<Rightarrow> Inl e
      | Inr r \<Rightarrow> if shape v ! to_ti r > 1 then Inr r else Inl AssertionError)"

text \<open>
  \<open>Trend.getview\<close> for a view with both coefficients.  A chunk holds, for every element,
  the pair of the data and of the time \<open>t\<close> in seconds.  The four calls of \<open>partial_sum\<close>
  update the four pairs of accumulators; then the means, \<open>A\<close>, \<open>B\<close> and the division by
  \<open>X2 - X**2\<close>.  The last axis of the output has \<open>B\<close> at index 0 and \<open>A\<close> at index 1.
\<close>

definition Trend_step :: "(fl \<times> fl) tchunk \<Rightarrow> accs \<times> accs \<times> accs \<times> accs \<Rightarrow> accs \<times> accs \<times> accs \<times> accs" where
  "Trend_step c st =
     (case st of (F, X, XF, X2) \<Rightarrow>
        (partial_sum (chunk_map (\<lambda>(data, t). data) c) F,
         partial_sum (chunk_map (\<lambda>(data, t). t) c) X,
         partial_sum (chunk_map (\<lambda>(data, t). data * t) c) XF,
         partial_sum (chunk_map (\<lambda>(data, t). t * t) c) X2))"

definition Trend_getview :: "nat \<Rightarrow> nat \<Rightarrow> (fl \<times> fl) tchunk list \<Rightarrow> fl list list list" where
  "Trend_getview nq nbins chunks =
     (case fold Trend_step chunks
             ((\<lambda>k. 0, \<lambda>k. 0), (\<lambda>k. 0, \<lambda>k. 0), (\<lambda>k. 0, \<lambda>k. 0), (\<lambda>k. 0, \<lambda>k. 0)) of
        ((F, nF), (X, nX), (XF, nXF), (X2, nX2)) \<Rightarrow>
          as_array2 nq nbins
            (\<lambda>k. (let F' = F k / fl_of_int (nF k);
                       X' = X k / fl_of_int (nX k);
                       XF' = XF k / fl_of_int (nXF k);
                       X2' = X2 k / fl_of_int (nX2 k);
                       A = XF' - X' * F';
                       B = X2' * F' - X' * XF'
                   in [B / (X2' - X' * X'), A / (X2' - X' * X')])))"

text \<open>
  \<open>from_trend.getview\<close>: \<open>A*secs + B\<close>, with the coefficients of the bin of each time
  step (the view maps the time axis onto the time axis of the coefficients).
\<close>

definition from_trend_getview :: "(nat \<times> fl) list \<Rightarrow> fl list list list \<Rightarrow> fl list list" where
  "from_trend_getview steps coef =
     map (\<lambda>cq. map (\<lambda>(b, secs). (cq ! b ! 1) * secs + (cq ! b ! 0)) steps) coef"

text \<open>
  The input of the trend: for every position \<open>q\<close> the elements of the variable along
  the time axis, each with the bin and the time of its step.
\<close>

definition trend_input :: "(nat \<times> fl) list \<Rightarrow> fl list list \<Rightarrow> (nat \<times> fl \<times> fl) list list" where
  "trend_input steps x = map (\<lambda>xq. map2 (\<lambda>(b, t) v. (b, v, t)) steps xq) x"

text \<open>
  \<open>detrend\<close>: \<open>var - from_trend(var.getaxis(taxis), climtrend(var).load())\<close>.  The chunks
  are those in which \<open>load\<close> evaluates the trend.
\<close>

definition detrend :: "(nat \<times> fl) list \<Rightarrow> nat \<Rightarrow> (fl \<times> fl) tchunk list \<Rightarrow> fl list list \<Rightarrow> fl list list" where
  "detrend steps nbins chunks x =
     map2 (\<lambda>xq cq. map2 (\<lambda>v c. v - c) xq cq) x
       (from_trend_getview steps (Trend_getview (length x) nbins chunks))"

text \<open>The elements of the input that fall into bin \<open>b\<close>.\<close>

definition in_bin :: "nat \<Rightarrow> (nat \<times> 'a) list \<Rightarrow> 'a list" where
  "in_bin b elems = map snd (filter (\<lambda>e. fst e = b) elems)"

section \<open>Notions used in the statements\<close>

text \<open>An element that is a finite number or NaN, and the finite numbers in a list.\<close>

definition fin_or_nan :: "fl \<Rightarrow> bool" where
  "fin_or_nan v = (isfinite v \<or> isnan v)"

definition finite_vals :: "fl list \<Rightarrow> real list" where
  "finite_vals xs = concat (map (\<lambda>v. case v of Fin a \<Rightarrow> [a] | _ \<Rightarrow> []) xs)"

text \<open>
  The unweighted reductions of reduce.py on floating-point data, by kind; \<open>getview\<close>
  evaluates the reduction of the given kind in chunks.
\<close>

datatype kind =
    KMin | KMax | KSum | KMean | KVariance | KStdev
  | KNanSum | KNanMean | KNanVariance | KNanStdev

fun nan_aware :: "kind \<Rightarrow> bool" where
  "nan_aware KNanSum = True"
| "nan_aware KNanMean = True"
| "nan_aware KNanVariance = True"
| "nan_aware KNanStdev = True"
| "nan_aware k = False"

fun getview :: "kind \<Rightarrow> nat \<Rightarrow> nat \<Rightarrow> nat \<Rightarrow> fl chunk list \<Rightarrow> fl list" where
  "getview KMin m inner N chunks = MinVar_getview m chunks"
| "getview KMax m inner N chunks = MaxVar_getview m chunks"
| "getview KSum m inner N chunks = SumVar_getview m chunks"
| "getview KMean m inner N chunks = MeanVar_getview m N chunks"
| "getview KVariance m inner N chunks = VarianceVar_getview float64 m N chunks"
| "getview KStdev m inner N chunks = SDVar_getview float64 m N chunks"
| "getview KNanSum m inner N chunks = NANSumVar_getview m chunks"
| "getview KNanMean m inner N chunks = NANMeanVar_getview m chunks"
| "getview KNanVariance m inner N chunks = NANVarianceVar_getview m inner chunks"
| "getview KNanStdev m inner N chunks = NANSDVar_getview m inner chunks"

text \<open>
  The variance as the spec words it: \<open>(sum(x\<^sup>2) - N * mean\<^sup>2) / (N - 1)\<close>, and the standard
  deviation as the square root of the variance clamped at zero.
\<close>

definition spec_variance :: "fl list \<Rightarrow> fl" where
  "spec_variance xs =
     (let N = fl_of_int (int (length xs));
          mean = sum_list xs / N
      in (sum_list (map (\<lambda>v. v * v) xs) - N * (mean * mean)) / (N - 1))"

definition spec_stdev :: "fl list \<Rightarrow> fl" where
  "spec_stdev xs = fsqrt (if fle (spec_variance xs) 0 then 0 else spec_variance xs)"

text \<open>
  The least-squares line as the spec words it, for a list of pairs (value \<open>x\<close>, time
  \<open>t\<close>): with \<open>E\<close> the mean over the list, the slope is
  \<open>(E[tx] - E[t]E[x]) / (E[t\<^sup>2] - E[t]\<^sup>2)\<close> and the intercept is
  \<open>(E[t\<^sup>2]E[x] - E[t]E[tx]) / (E[t\<^sup>2] - E[t]\<^sup>2)\<close>.
\<close>

definition E :: "fl list \<Rightarrow> fl" where
  "E vs = sum_list vs / fl_of_int (int (length vs))"

definition lsq_slope :: "(fl \<times> fl) list \<Rightarrow> fl" where
  "lsq_slope xts =
     (let x = map fst xts; t = map snd xts
      in (E (map2 (\<lambda>t x. t * x) t x) - E t * E x) / (E (map (\<lambda>t. t * t) t) - E t * E t))"

definition lsq_intercept :: "(fl \<times> fl) list \<Rightarrow> fl" where
  "lsq_intercept xts =
     (let x = map fst xts; t = map snd xts
      in (E (map (\<lambda>t. t * t) t) * E x - E t * E (map2 (\<lambda>t x. t * x) t x))
         / (E (map (\<lambda>t. t * t) t) - E t * E t))"

text \<open>
  An example for the trend: a variable on a time axis with two time steps at the same
  time, and the output time axis with their single bin.
\<close>

definition time_twice :: axis where
  "time_twice = \<lparr> ax_class = [''StandardTime'', ''CalendarTime'', ''Time'', ''TAxis'', ''Axis''],
                  ax_aliases = [''time''], ax_values = [0, 0], ax_weights = None \<rparr>"

definition time_once :: axis where
  "time_once = \<lparr> ax_class = [''StandardTime'', ''CalendarTime'', ''Time'', ''TAxis'', ''Axis''],
                 ax_aliases = [''time''], ax_values = [0], ax_weights = None \<rparr>"

definition twice_var :: var where
  "twice_var = \<lparr> v_axes = [time_twice], v_dtype = Float64, v_name = ''T'',
                 v_atts = [], v_values = None \<rparr>"

text \<open>
  An example for the trend: two samples of \<open>y = 3 t + 7\<close> at one position, taken one day
  (86400 seconds) apart in the same year, so that they belong to two different bins of
  the climatological time axis; the whole input in one chunk.
\<close>

definition two_days :: "(fl \<times> fl) tchunk list" where
  "two_days = [[(0, [(0, (Fin 7, Fin 0)), (1, (Fin 259207, Fin 86400))])]]"

section \<open>Weights (var.py, reduce.py)\<close>

text \<open>
  \<open>Var.getweights(iaxes)\<close>: the weights of the chosen axes (of all axes when none is
  chosen) that carry weights.  With no weighted axis the result is the degenerate
  variable \<open>Var(axes=[], values=1.0)\<close>.

  Modelled from the spec: \<open>vprod\<close> of \<open>pygeode.ufunc\<close> and \<open>auxasvar\<close> are not among the
  sources; the product of the weights is a variable on the weighted axes, represented
  here by these axes.
\<close>

fun getaxes :: "var \<Rightarrow> ident list \<Rightarrow> pyerr + axis list" where
  "getaxes v [] = Inr []"
| "getaxes v (i # is) =
     (case getaxis v i of
        Inl e \<Rightarrow> Inl e
      | Inr a \<Rightarrow> (case getaxes v is of Inl e \<Rightarrow> Inl e | Inr as \<Rightarrow> Inr (a # as)))"

definition getweights :: "var \<Rightarrow> ident list \<Rightarrow> pyerr + var" where
  "getweights v iaxes =
     (case (if length iaxes = 0 then Inr (v_axes v) else getaxes v iaxes) of
        Inl e \<Rightarrow> Inl e
      | Inr axs \<Rightarrow>
          (let wt = filter (\<lambda>a. ax_weights a \<noteq> None) axs
           in if length wt = 0 then
                Var_init [] None None
                  (Some \<lparr> nd_dtype = Float64, nd_shape = [], nd_data = [1] \<rparr>) None
              else Var_init wt (Some Float64) None None None))"

text \<open>
  The keyword argument \<open>weights\<close> of the reductions: \<open>True\<close>, \<open>False\<close>, \<open>None\<close> or a
  variable; and the classes the reductions instantiate, the weighted ones with their
  weights.
\<close>

datatype weights_arg = WTrue | WFalse | WNone | WVar var

datatype reduce_class =
    SumVar | WeightedSumVar var | NANSumVar | WeightedNANSumVar var
  | MeanVar | WeightedMeanVar var | NANMeanVar | WeightedNANMeanVar var

text \<open>
  The common part of \<open>sum\<close>, \<open>nansum\<close>, \<open>mean\<close> and \<open>nanmean\<close>: \<open>weights = True\<close> is replaced
  by \<open>var.getweights(axes)\<close>; the unweighted class is chosen when
  \<open>weights is False or weights is None or weights.naxes == 0\<close>, the weighted class
  otherwise.
\<close>

definition choose_class ::
  "reduce_class \<Rightarrow> (var \<Rightarrow> reduce_class) \<Rightarrow> var \<Rightarrow> ident list \<Rightarrow> weights_arg \<Rightarrow> pyerr + reduce_class" where
  "choose_class plain weighted v axes weights =
     (case (if weights = WTrue
            then (case getweights v axes of Inl e \<Rightarrow> Inl e | Inr w \<Rightarrow> Inr (WVar w))
            else Inr weights) of
        Inl e \<Rightarrow> Inl e
      | Inr w \<Rightarrow>
          (case w of
             WVar wv \<Rightarrow> if naxes wv = 0 then Inr plain else Inr (weighted wv)
           | _ \<Rightarrow> Inr plain))"

text \<open>
  The four functions, with the keyword argument \<open>weights\<close> when it is given.  Its default
  is \<open>False\<close> in \<open>sum\<close> and \<open>True\<close> in \<open>nansum\<close>, \<open>mean\<close> and \<open>nanmean\<close>.
\<close>

definition sum_var :: "var \<Rightarrow> ident list \<Rightarrow> weights_arg option \<Rightarrow> pyerr + reduce_class" where
  "sum_var v axes kwargs =
     choose_class SumVar WeightedSumVar v axes (case kwargs of None \<Rightarrow> WFalse | Some w \<Rightarrow> w)"

definition nansum :: "var \<Rightarrow> ident list \<Rightarrow> weights_arg option \<Rightarrow> pyerr + reduce_class" where
  "nansum v axes kwargs =
     choose_class NANSumVar WeightedNANSumVar v axes (case kwargs of None \<Rightarrow> WTrue | Some w \<Rightarrow> w)"



text \<open>
  Modelled from the spec: \<open>loopover([self.var, self.mweights], view, self.var.axes)\<close> yields
  for each chunk the data \<open>indata\<close> and the weights \<open>inw\<close> of the chunk, shaped so that
  \<open>indata * inw\<close> pairs every element with its weight.  The weights live on some of the
  reduced axes; the elements of \<open>indata\<close> that contribute to one output position are
  grouped into lists along the axes of the weights, each as long as \<open>inw\<close>.  A weighted
  chunk is the chunk of the data together with \<open>inw\<close>.
\<close>

type_synonym wchunk = "fl list chunk \<times> fl list"

text \<open>\<open>indata * inw\<close> and \<open>inw + indata*0.\<close> at one output position, flattened.\<close>

definition times_weights :: "fl list list \<Rightarrow> fl list \<Rightarrow> fl list" where
  "times_weights indata inw = concat (map (\<lambda>r. map2 (\<lambda>x w. x * w) r inw) indata)"

definition masked_weights :: "fl list list \<Rightarrow> fl list \<Rightarrow> fl list" where
  "masked_weights indata inw = concat (map (\<lambda>r. map2 (\<lambda>x w. w + x * 0) r inw) indata)"

text \<open>
  The factor \<open>f = indata.size / (inw.size * out[outsl].size)\<close>, an integer division of
  Python 2.
\<close>

definition indata_size :: "fl list chunk \<Rightarrow> nat" where
  "indata_size c = sum_list (map (\<lambda>e. sum_list (map length (snd e))) c)"

definition broadcast_factor :: "wchunk \<Rightarrow> int" where
  "broadcast_factor wc = int (indata_size (fst wc)) div (int (length (snd wc)) * int (length (fst wc)))"

definition for_wchunks ::
  "(wchunk \<Rightarrow> 's \<Rightarrow> fl list list \<Rightarrow> 's) \<Rightarrow> wchunk list \<Rightarrow> (nat \<Rightarrow> 's) \<Rightarrow> (nat \<Rightarrow> 's)" where
  "for_wchunks f wchunks out = fold (\<lambda>wc. update_slice (f wc) (fst wc)) wchunks out"

text \<open>\<open>WeightedSumVar.getview\<close> and \<open>WeightedNANSumVar.getview\<close>.\<close>

definition WeightedSumVar_getview :: "nat \<Rightarrow> wchunk list \<Rightarrow> fl list" where
  "WeightedSumVar_getview m wchunks =
     as_array m
       (for_wchunks (\<lambda>wc out indata. out + npsum (times_weights indata (snd wc)))
          wchunks (\<lambda>p. 0))"

definition WeightedNANSumVar_getview :: "nat \<Rightarrow> wchunk list \<Rightarrow> fl list" where
  "WeightedNANSumVar_getview m wchunks =
     as_array m
       (for_wchunks (\<lambda>wc out indata. nansum2 out (npnansum (times_weights indata (snd wc))))
          wchunks (\<lambda>p. 0 * NaN))"

text \<open>\<open>WeightedMeanVar.getview\<close> and \<open>WeightedNANMeanVar.getview\<close>.\<close>

definition WeightedMeanVar_getview :: "nat \<Rightarrow> wchunk list \<Rightarrow> fl list" where
  "WeightedMeanVar_getview m wchunks =
     map (\<lambda>(out, W). out / W)
       (as_array m
          (for_wchunks
             (\<lambda>wc (out, W) indata.
                (out + npsum (times_weights indata (snd wc)),
                 W + npsum (snd wc) * fl_of_int (broadcast_factor wc)))
             wchunks (\<lambda>p. (0, 0))))"

definition WeightedNANMeanVar_getview :: "nat \<Rightarrow> wchunk list \<Rightarrow> fl list" where
  "WeightedNANMeanVar_getview m wchunks =
     map (\<lambda>(out, W). out / W)
       (as_array m
          (for_wchunks
             (\<lambda>wc (out, W) indata.
                (nansum2 out (npnansum (times_weights indata (snd wc))),
                 nansum2 W (npnansum (masked_weights indata (snd wc)))))
             wchunks (\<lambda>p. (0 * NaN, 0 * NaN))))"

text \<open>
  A weighted chunk as \<open>loopover\<close> yields it: it is not empty, names an output position at
  most once, holds for every output position the same number (at least one) of lists of
  data, each as long as \<open>inw\<close>.
\<close>

definition wf_wchunk :: "wchunk \<Rightarrow> bool" where
  "wf_wchunk wc =
     (snd wc \<noteq> [] \<and> fst wc \<noteq> [] \<and> distinct (map fst (fst wc))
      \<and> list_all (\<lambda>e. snd e \<noteq> [] \<and> length (snd e) = length (snd (hd (fst wc)))
                       \<and> list_all (\<lambda>r. length r = length (snd wc)) (snd e)) (fst wc))"


text \<open>
  The elements of a weighted chunk, each with its weight: at one output position
  (\<open>pairs_of\<close>) and in the whole chunk (\<open>wpairs\<close>).  \<open>wchunking_of xw wchunks\<close>: the
  weighted chunks are a way of cutting up the input \<open>xw\<close>, given as the list, for every
  output position, of the elements reduced into it, each with its weight.
\<close>

definition pairs_of :: "fl list list \<Rightarrow> fl list \<Rightarrow> (fl \<times> fl) list" where
  "pairs_of indata inw = concat (map (\<lambda>r. zip r inw) indata)"

definition wpairs :: "wchunk \<Rightarrow> (fl \<times> fl) chunk" where
  "wpairs wc = map (\<lambda>(p, indata). (p, pairs_of indata (snd wc))) (fst wc)"

definition wchunking_of :: "(fl \<times> fl) list list \<Rightarrow> wchunk list \<Rightarrow> bool" where
  "wchunking_of xw wchunks = (list_all wf_wchunk wchunks \<and> chunking_of xw (map wpairs wchunks))"

text \<open>The weighted reductions of reduce.py, by kind.\<close>

datatype wkind = KWeightedSum | KWeightedMean | KWeightedNanSum | KWeightedNanMean

fun wnan_aware :: "wkind \<Rightarrow> bool" where
  "wnan_aware KWeightedNanSum = True"
| "wnan_aware KWeightedNanMean = True"
| "wnan_aware k = False"

fun getview_weighted :: "wkind \<Rightarrow> nat \<Rightarrow> wchunk list \<Rightarrow> fl list" where
  "getview_weighted KWeightedSum m wchunks = WeightedSumVar_getview m wchunks"
| "getview_weighted KWeightedMean m wchunks = WeightedMeanVar_getview m wchunks"
| "getview_weighted KWeightedNanSum m wchunks = WeightedNANSumVar_getview m wchunks"
| "getview_weighted KWeightedNanMean m wchunks = WeightedNANMeanVar_getview m wchunks"

section \<open>Results about axis lookup\<close>

lemma whichaxis_int_in_range:
  "0 \<le> i \<Longrightarrow> i < int (naxes v) \<Longrightarrow> whichaxis v (IInt i) = Inr (nat i)"
  by (simp add: whichaxis_def naxes_def)

lemma whichaxis_int_out_of_range:
  "\<not> (0 \<le> i \<and> i < int (naxes v)) \<Longrightarrow> whichaxis v (IInt i) = Inl TypeError"
  by (simp add: whichaxis_def naxes_def issubclass_Axis_def)

text \<open>
  Claim C10.  \<open>whichaxis\<close> on an integer \<open>i\<close> returns \<open>i\<close> when \<open>0 \<le> i < naxes\<close>, and
  \<open>getaxis\<close> then returns the \<open>i\<close>-th axis.  For an integer outside that range the documented
  \<open>KeyError\<close> is not what the code raises: on the two-axis variable \<open>temp_var\<close> the
  indices \<open>-1\<close> and \<open>2\<close> make \<open>whichaxis\<close> and \<open>getaxis\<close> raise \<open>TypeError\<close> (from
  \<open>issubclass\<close> applied to an integer), and \<open>hasaxis\<close>, which catches only \<open>KeyError\<close>,
  raises it too instead of answering \<open>False\<close>.
\<close>

theorem whichaxis_int_raises_TypeError:
  "whichaxis temp_var (IInt 1) = Inr 1
   \<and> getaxis temp_var (IInt 1) = Inr lon_axis
   \<and> whichaxis temp_var (IInt (- 1)) = Inl TypeError
   \<and> whichaxis temp_var (IInt 2) = Inl TypeError
   \<and> getaxis temp_var (IInt (- 1)) = Inl TypeError
   \<and> getaxis temp_var (IInt 2) = Inl TypeError
   \<and> hasaxis temp_var (IInt (- 1)) = Inl TypeError
   \<and> whichaxis temp_var (IInt (- 1)) \<noteq> Inl KeyError"
  by (simp add: whichaxis_def getaxis_def hasaxis_def temp_var_def issubclass_Axis_def)

section \<open>Results about the construction of reductions\<close>

lemma enumerate_filter_nths:
  "map snd (filter (\<lambda>(i, a). i \<notin> S) (enumerate n xs)) = nths xs {k. k + n \<notin> S}"
proof (induction xs arbitrary: n)
  case Nil
  then show ?case by simp
next
  case (Cons x xs)
  show ?case using Cons[of "Suc n"] by (auto simp: nths_Cons)
qed

lemma whichaxes_valid:
  "\<forall>i\<in>set ids. \<exists>k. whichaxis v i = Inr k \<Longrightarrow>
   \<exists>ks. whichaxes v ids = Inr ks \<and> length ks = length ids
        \<and> set ks = {k. \<exists>i\<in>set ids. whichaxis v i = Inr k}"
  by (induction ids) auto

text \<open>
  Claim C9.  A reduction built by \<open>ReducedVar.__init__\<close> from one variable and a non-empty
  list of identifiers that \<open>whichaxis\<close> all resolves is constructed without error; its axes
  are the axes of the input at the positions that no identifier resolves to, in their
  original order, and its element type is that of the input.
\<close>

theorem ReducedVar_init_axes_dtype:
  assumes "indices \<noteq> []" and "\<forall>i\<in>set indices. \<exists>k. whichaxis v i = Inr k"
  shows "\<exists>r. ReducedVar_init v indices = Inr r
     \<and> v_axes r = nths (v_axes v) {k. \<forall>i\<in>set indices. whichaxis v i \<noteq> Inr k}
     \<and> v_dtype r = v_dtype v"
proof -
  from whichaxes_valid[OF assms(2)] obtain ks where
    ks: "whichaxes v indices = Inr ks" "length ks = length indices"
        "set ks = {k. \<exists>i\<in>set indices. whichaxis v i = Inr k}" by blast
  have ne: "sort ks \<noteq> []"
    using assms(1) ks(2) by (metis length_sort length_0_conv)
  have "{k. k + 0 \<notin> set (sort ks)} = {k. \<forall>i\<in>set indices. whichaxis v i \<noteq> Inr k}"
    using ks(3) by auto
  then show ?thesis
    using ks(1) ne
    by (simp add: ReducedVar_init_def Var_init_def Let_def enumerate_filter_nths)
qed

theorem ReducedVar_init_axes_dtype_witness:
  "[IStr ''lon''] \<noteq> [] \<and> (\<exists>k. whichaxis temp_var (IStr ''lon'') = Inr k)
   \<and> (\<exists>r. ReducedVar_init temp_var [IStr ''lon''] = Inr r
          \<and> v_axes r = [lat_axis] \<and> v_dtype r = Float64)"
proof -
  have w: "whichaxis temp_var (IStr ''lon'') = Inr 1"
    by (simp add: whichaxis_def temp_var_def has_alias_def lat_axis_def lon_axis_def)
  have h: "\<forall>i\<in>set [IStr ''lon'']. \<exists>k. whichaxis temp_var i = Inr k"
    using w by simp
  have s: "{k. \<forall>i\<in>set [IStr ''lon'']. whichaxis temp_var i \<noteq> Inr k} = - {1}"
    using w by auto
  have n: "nths (v_axes temp_var) (- {1}) = [lat_axis]"
    by (simp add: temp_var_def nths_Cons)
  have d: "v_dtype temp_var = Float64" by (simp add: temp_var_def)
  from ReducedVar_init_axes_dtype[of "[IStr ''lon'']" temp_var, OF _ h]
  show ?thesis using w s n d by auto
qed

text \<open>
  Claim C8, as the code has it.  With a non-empty list of reduction axes that
  \<open>__init__\<close> accepts, the call returns the lazy node exactly when the input variable holds
  no in-memory values; when it does, the reduction is computed at once and the loaded
  result is returned.  The choice is made by \<open>hasattr(v, 'values')\<close>, not by the caller.
\<close>

theorem ReducedVar_new_lazy_unless_in_memory:
  assumes "indices \<noteq> []" and "ReducedVar_init v indices = Inr r"
  shows "ReducedVar_new v indices = Inr (if has_values v then Loaded r else Lazy r)"
  using assms by (simp add: ReducedVar_new_def)

theorem ReducedVar_new_lazy_unless_in_memory_witness:
  "[IInt 1] \<noteq> [] \<and> (\<exists>r. ReducedVar_init temp_var [IInt 1] = Inr r
      \<and> ReducedVar_new temp_var [IInt 1] = Inr (Lazy r))"
proof -
  obtain r where r: "ReducedVar_init temp_var [IInt 1] = Inr r"
    by (simp add: ReducedVar_init_def whichaxis_def temp_var_def Var_init_def Let_def)
  have "\<not> has_values temp_var" by (simp add: has_values_def temp_var_def)
  with ReducedVar_new_lazy_unless_in_memory[of "[IInt 1]" temp_var r] r show ?thesis by simp
qed

text \<open>
  Claim C8 as stated fails: the variable \<open>temp_mem\<close> holds its values in memory, and a
  reduction over its axis 1, requested with no option at all, comes back loaded, not lazy.
\<close>

theorem ReducedVar_new_in_memory_not_lazy:
  "has_values temp_mem \<and> [IInt 1] \<noteq> []
   \<and> is_loaded (ReducedVar_new temp_mem [IInt 1])
   \<and> \<not> is_lazy (ReducedVar_new temp_mem [IInt 1])"
  by (simp add: ReducedVar_new_def ReducedVar_init_def whichaxis_def temp_mem_def temp_var_def
        Var_init_def Let_def has_values_def)

section \<open>Results about evaluation in chunks\<close>

lemma update_slice_at:
  "update_slice f c out p =
   fold (\<lambda>indata a. f a indata) (map snd (filter (\<lambda>e. fst e = p) c)) (out p)"
  unfolding update_slice_def
  by (induction c arbitrary: out) (auto simp: case_prod_beta)

lemma for_chunks_at:
  "for_chunks f chunks out p = fold (\<lambda>indata a. f a indata) (rows chunks p) (out p)"
  unfolding for_chunks_def rows_def
  by (induction chunks arbitrary: out) (simp_all add: update_slice_at)

lemma fold_pair:
  "fold (\<lambda>r s. (f (fst s) r, g (snd s) r)) rs (a0, b0)
   = (fold (\<lambda>r a. f a r) rs a0, fold (\<lambda>r b. g b r) rs b0)"
  by (induction rs arbitrary: a0 b0) simp_all

lemma for_chunks_pair:
  "for_chunks (\<lambda>(a, b) r. (f a r, g b r)) chunks (\<lambda>p. (a0 p, b0 p)) p
   = (for_chunks f chunks a0 p, for_chunks g chunks b0 p)"
  by (simp add: for_chunks_at case_prod_beta fold_pair)

lemma fold_triple:
  "fold (\<lambda>r s. (f (fst s) r, g (fst (snd s)) r, h (snd (snd s)) r)) rs (a0, b0, c0)
   = (fold (\<lambda>r a. f a r) rs a0, fold (\<lambda>r b. g b r) rs b0, fold (\<lambda>r c. h c r) rs c0)"
  by (induction rs arbitrary: a0 b0 c0) simp_all

lemma for_chunks_triple:
  "for_chunks (\<lambda>(a, b, c) r. (f a r, g b r, h c r)) chunks (\<lambda>p. (a0 p, b0 p, c0 p)) p
   = (for_chunks f chunks a0 p, for_chunks g chunks b0 p, for_chunks h chunks c0 p)"
  by (simp add: for_chunks_at case_prod_beta fold_triple)

lemma as_array_nth: "p < m \<Longrightarrow> as_array m out ! p = out p"
  by (simp add: as_array_def)

lemma as_array_cong: "(\<And>p. p < m \<Longrightarrow> f p = g p) \<Longrightarrow> as_array m f = as_array m g"
  by (simp add: as_array_def)

lemma chunking_of_mset:
  "chunking_of x chunks \<Longrightarrow> p < length x \<Longrightarrow> mset (contribs chunks p) = mset (x ! p)"
  by (simp add: chunking_of_def list_all_iff)

lemma chunking_of_rows_nonempty:
  "chunking_of x chunks \<Longrightarrow> r \<in> set (rows chunks p) \<Longrightarrow> r \<noteq> []"
  by (auto simp: chunking_of_def rows_def list_all_iff)

subsection \<open>Sums\<close>

lemma sum_list_mset_fl: "mset xs = mset ys \<Longrightarrow> sum_list xs = sum_list (ys :: fl list)"
  by (metis sum_mset_sum_list)

lemma fold_sum_rows:
  "fold (\<lambda>r a. a + npsum (map h r)) rs (a::fl) = a + sum_list (map h (concat rs))"
  by (induction rs arbitrary: a) (simp_all add: add.assoc npsum_def)

lemma sum_acc_at:
  assumes "chunking_of x chunks" and "p < length x"
  shows "for_chunks (\<lambda>out indata. out + npsum (map h indata)) chunks (\<lambda>p. 0) p
         = sum_list (map h (x ! p))"
proof -
  have "mset (map h (contribs chunks p)) = mset (map h (x ! p))"
    using chunking_of_mset[OF assms] by simp
  then have "sum_list (map h (contribs chunks p)) = sum_list (map h (x ! p))"
    by (rule sum_list_mset_fl)
  then show ?thesis
    by (simp add: for_chunks_at fold_sum_rows contribs_def)
qed

lemma sum_acc_at_id:
  assumes "chunking_of x chunks" and "p < length x"
  shows "for_chunks (\<lambda>out indata. out + npsum indata) chunks (\<lambda>p. 0) p = sum_list (x ! p)"
  using sum_acc_at[OF assms, of "\<lambda>v. v"] by simp

subsection \<open>Sums that skip NaN\<close>

lemma finite_vals_simps [simp]:
  "finite_vals [] = []"
  "finite_vals (Fin r # xs) = r # finite_vals xs"
  "finite_vals (NaN # xs) = finite_vals xs"
  "finite_vals (PInf # xs) = finite_vals xs"
  "finite_vals (NInf # xs) = finite_vals xs"
  by (simp_all add: finite_vals_def)

lemma nansum2_NaN_left [simp]: "nansum2 NaN b = b"
  by (cases b) (simp_all add: nansum2_def npnansum_def zero_fl_def plus_fl_def)

lemma nansum2_NaN_right [simp]: "nansum2 a NaN = a"
  by (cases a) (simp_all add: nansum2_def npnansum_def zero_fl_def plus_fl_def)

lemma nansum2_Fin [simp]: "nansum2 (Fin r) (Fin s) = Fin (r + s)"
  by (simp add: nansum2_def npnansum_def zero_fl_def plus_fl_def)

lemma npnansum_Nil [simp]: "npnansum [] = NaN"
  by (simp add: npnansum_def)

lemma zero_times_NaN [simp]: "0 * NaN = NaN"
  by (simp add: times_fl_def zero_fl_def)

lemma sum_list_fin_or_nan:
  "list_all fin_or_nan xs \<Longrightarrow>
   sum_list (filter (\<lambda>x. \<not> isnan x) xs) = Fin (sum_list (finite_vals xs))"
proof (induction xs)
  case Nil
  then show ?case by (simp add: zero_fl_def)
next
  case (Cons v xs)
  then show ?case by (cases v) (simp_all add: fin_or_nan_def plus_fl_def)
qed

lemma all_nan_finite_vals:
  "list_all fin_or_nan xs \<Longrightarrow> list_all isnan xs \<longleftrightarrow> finite_vals xs = []"
proof (induction xs)
  case Nil
  then show ?case by simp
next
  case (Cons v xs)
  then show ?case by (cases v) (simp_all add: fin_or_nan_def)
qed

lemma npnansum_fin_or_nan:
  "list_all fin_or_nan xs \<Longrightarrow>
   npnansum xs = (if list_all isnan xs then NaN else Fin (sum_list (finite_vals xs)))"
  by (simp add: npnansum_def sum_list_fin_or_nan)

lemma nansum2_npnansum_Cons:
  assumes "fin_or_nan v" and "list_all fin_or_nan xs"
  shows "nansum2 a (npnansum (v # xs)) = nansum2 (nansum2 a v) (npnansum xs)"
proof -
  have xs: "npnansum xs = (if list_all isnan xs then NaN else Fin (sum_list (finite_vals xs)))"
    using assms(2) by (rule npnansum_fin_or_nan)
  have vxs: "npnansum (v # xs)
             = (if list_all isnan (v # xs) then NaN else Fin (sum_list (finite_vals (v # xs))))"
    using assms by (intro npnansum_fin_or_nan) simp
  show ?thesis
  proof (cases v)
    case (Fin r)
    then show ?thesis unfolding xs vxs using all_nan_finite_vals[OF assms(2)]
      by (cases a) (simp_all add: nansum2_def npnansum_def plus_fl_def zero_fl_def)
  next
    case NaN
    then show ?thesis unfolding xs vxs by simp
  qed (use assms(1) in \<open>simp_all add: fin_or_nan_def\<close>)
qed

lemma nansum2_npnansum_fold:
  "list_all fin_or_nan xs \<Longrightarrow> nansum2 a (npnansum xs) = fold (\<lambda>v a. nansum2 a v) xs a"
proof (induction xs arbitrary: a)
  case Nil
  then show ?case by simp
next
  case (Cons v xs)
  then show ?case by (simp add: nansum2_npnansum_Cons)
qed

lemma npnansum_mset:
  assumes "mset xs = mset ys"
  shows "npnansum xs = npnansum ys"
proof -
  have "set xs = set ys" using assms by (rule mset_eq_setD)
  then have a: "list_all isnan xs = list_all isnan ys" by (simp add: list_all_iff)
  have "mset (filter (\<lambda>x. \<not> isnan x) xs) = mset (filter (\<lambda>x. \<not> isnan x) ys)"
    using assms by simp
  then have b: "sum_list (filter (\<lambda>x. \<not> isnan x) xs) = sum_list (filter (\<lambda>x. \<not> isnan x) ys)"
    by (rule sum_list_mset_fl)
  show ?thesis unfolding npnansum_def using a b by simp
qed

lemma fold_nansum_rows:
  "list_all fin_or_nan (map h (concat rs)) \<Longrightarrow>
   fold (\<lambda>r a. nansum2 a (npnansum (map h r))) rs a = nansum2 a (npnansum (map h (concat rs)))"
proof (induction rs arbitrary: a)
  case Nil
  then show ?case by simp
next
  case (Cons r rs)
  have r: "list_all fin_or_nan (map h r)" and rs: "list_all fin_or_nan (map h (concat rs))"
    using Cons.prems by simp_all
  have "nansum2 (nansum2 a (npnansum (map h r))) (npnansum (map h (concat rs)))
        = nansum2 a (npnansum (map h r @ map h (concat rs)))"
    using r rs by (simp add: nansum2_npnansum_fold)
  then show ?case using Cons.IH[OF rs] by simp
qed

lemma nansum_acc_at:
  assumes "chunking_of x chunks" and "p < length x"
    and "list_all fin_or_nan (map h (x ! p))"
  shows "for_chunks (\<lambda>out indata. nansum2 out (npnansum (map h indata))) chunks (\<lambda>p. NaN) p
         = npnansum (map h (x ! p))"
proof -
  have m: "mset (map h (contribs chunks p)) = mset (map h (x ! p))"
    using chunking_of_mset[OF assms(1,2)] by simp
  then have "set (map h (contribs chunks p)) = set (map h (x ! p))"
    by (rule mset_eq_setD)
  then have "list_all fin_or_nan (map h (contribs chunks p))"
    using assms(3) by (simp add: list_all_iff)
  then have "fold (\<lambda>r a. nansum2 a (npnansum (map h r))) (rows chunks p) NaN
             = npnansum (map h (contribs chunks p))"
    unfolding contribs_def by (simp add: fold_nansum_rows)
  then show ?thesis
    using npnansum_mset[OF m] by (simp add: for_chunks_at)
qed

lemma nansum_acc_at_id:
  assumes "chunking_of x chunks" and "p < length x" and "list_all fin_or_nan (x ! p)"
  shows "for_chunks (\<lambda>out indata. nansum2 out (npnansum indata)) chunks (\<lambda>p. NaN) p
         = npnansum (x ! p)"
  using nansum_acc_at[OF assms(1,2), of "\<lambda>v. v"] assms(3) by simp

subsection \<open>Minimum and maximum\<close>

lemma fmin_commute: "fmin a b = fmin b a"
  by (cases a; cases b) (auto simp: fmin_def)

lemma fmin_assoc: "fmin (fmin a b) c = fmin a (fmin b c)"
  by (cases a; cases b; cases c) (auto simp: fmin_def)

lemma fmax_commute: "fmax a b = fmax b a"
  by (cases a; cases b) (auto simp: fmax_def)

lemma fmax_assoc: "fmax (fmax a b) c = fmax a (fmax b c)"
  by (cases a; cases b; cases c) (auto simp: fmax_def)

lemma fmin_left_commute: "fmin (fmin a y) x = fmin (fmin a x) y"
  by (metis fmin_assoc fmin_commute)

lemma fmax_left_commute: "fmax (fmax a y) x = fmax (fmax a x) y"
  by (metis fmax_assoc fmax_commute)

lemma fmin_fold: "fmin a (fold fmin vs v) = fold (\<lambda>v a. fmin a v) vs (fmin a v)"
proof (induction vs arbitrary: v a)
  case Nil
  then show ?case by simp
next
  case (Cons u vs)
  have "fmin a (fold fmin vs (fmin u v)) = fold (\<lambda>v a. fmin a v) vs (fmin a (fmin u v))"
    by (rule Cons.IH)
  also have "fmin a (fmin u v) = fmin (fmin a v) u"
    by (metis fmin_assoc fmin_commute)
  finally show ?case by simp
qed

lemma fmax_fold: "fmax a (fold fmax vs v) = fold (\<lambda>v a. fmax a v) vs (fmax a v)"
proof (induction vs arbitrary: v a)
  case Nil
  then show ?case by simp
next
  case (Cons u vs)
  have "fmax a (fold fmax vs (fmax u v)) = fold (\<lambda>v a. fmax a v) vs (fmax a (fmax u v))"
    by (rule Cons.IH)
  also have "fmax a (fmax u v) = fmax (fmax a v) u"
    by (metis fmax_assoc fmax_commute)
  finally show ?case by simp
qed

lemma fmin_npmin: "r \<noteq> [] \<Longrightarrow> fmin a (npmin r) = fold (\<lambda>v a. fmin a v) r a"
  by (cases r) (simp_all add: npmin_def fmin_fold)

lemma fmax_npmax: "r \<noteq> [] \<Longrightarrow> fmax a (npmax r) = fold (\<lambda>v a. fmax a v) r a"
  by (cases r) (simp_all add: npmax_def fmax_fold)

lemma fold_fmin_mset:
  assumes "mset xs = mset ys"
  shows "fold (\<lambda>v a. fmin a v) xs a = fold (\<lambda>v a. fmin a v) ys a"
proof -
  have "fold (\<lambda>v a. fmin a v) xs = fold (\<lambda>v a. fmin a v) ys"
  proof (rule fold_multiset_equiv[OF _ assms])
    fix x y
    show "(\<lambda>a. fmin a x) \<circ> (\<lambda>a. fmin a y) = (\<lambda>a. fmin a y) \<circ> (\<lambda>a. fmin a x)"
      by (simp add: fun_eq_iff fmin_left_commute)
  qed
  then show ?thesis by simp
qed

lemma fold_fmax_mset:
  assumes "mset xs = mset ys"
  shows "fold (\<lambda>v a. fmax a v) xs a = fold (\<lambda>v a. fmax a v) ys a"
proof -
  have "fold (\<lambda>v a. fmax a v) xs = fold (\<lambda>v a. fmax a v) ys"
  proof (rule fold_multiset_equiv[OF _ assms])
    fix x y
    show "(\<lambda>a. fmax a x) \<circ> (\<lambda>a. fmax a y) = (\<lambda>a. fmax a y) \<circ> (\<lambda>a. fmax a x)"
      by (simp add: fun_eq_iff fmax_left_commute)
  qed
  then show ?thesis by simp
qed

lemma fold_rows_concat:
  assumes "\<And>a r. r \<in> set rs \<Longrightarrow> f a r = fold g r a"
  shows "fold (\<lambda>r a. f a r) rs a = fold g (concat rs) a"
  using assms by (induction rs arbitrary: a) simp_all

lemma min_acc_at:
  assumes "chunking_of x chunks" and "p < length x"
  shows "for_chunks (\<lambda>out indata. fmin out (npmin indata)) chunks (\<lambda>p. PInf) p
         = fold (\<lambda>v a. fmin a v) (x ! p) PInf"
proof -
  have "fold (\<lambda>r a. fmin a (npmin r)) (rows chunks p) PInf
        = fold (\<lambda>v a. fmin a v) (concat (rows chunks p)) PInf"
    by (rule fold_rows_concat) (simp add: fmin_npmin chunking_of_rows_nonempty[OF assms(1)])
  also have "\<dots> = fold (\<lambda>v a. fmin a v) (x ! p) PInf"
    using chunking_of_mset[OF assms] unfolding contribs_def by (rule fold_fmin_mset)
  finally show ?thesis by (simp add: for_chunks_at)
qed

lemma max_acc_at:
  assumes "chunking_of x chunks" and "p < length x"
  shows "for_chunks (\<lambda>out indata. fmax out (npmax indata)) chunks (\<lambda>p. NInf) p
         = fold (\<lambda>v a. fmax a v) (x ! p) NInf"
proof -
  have "fold (\<lambda>r a. fmax a (npmax r)) (rows chunks p) NInf
        = fold (\<lambda>v a. fmax a v) (concat (rows chunks p)) NInf"
    by (rule fold_rows_concat) (simp add: fmax_npmax chunking_of_rows_nonempty[OF assms(1)])
  also have "\<dots> = fold (\<lambda>v a. fmax a v) (x ! p) NInf"
    using chunking_of_mset[OF assms] unfolding contribs_def by (rule fold_fmax_mset)
  finally show ?thesis by (simp add: for_chunks_at)
qed

subsection \<open>The value of each reduction at an output position\<close>

lemma SumVar_at:
  assumes "chunking_of x chunks" and "p < length x"
  shows "SumVar_getview (length x) chunks ! p = sum_list (x ! p)"
  using assms by (simp add: SumVar_getview_def as_array_nth sum_acc_at_id)

lemma MeanVar_at:
  assumes "chunking_of x chunks" and "p < length x"
  shows "MeanVar_getview (length x) N chunks ! p = sum_list (x ! p) / fl_of_int (int N)"
  using assms by (simp add: MeanVar_getview_def as_array_def sum_acc_at_id)

lemma MinVar_at:
  assumes "chunking_of x chunks" and "p < length x"
  shows "MinVar_getview (length x) chunks ! p = fold (\<lambda>v a. fmin a v) (x ! p) PInf"
  using assms by (simp add: MinVar_getview_def as_array_nth min_acc_at)

lemma MaxVar_at:
  assumes "chunking_of x chunks" and "p < length x"
  shows "MaxVar_getview (length x) chunks ! p = fold (\<lambda>v a. fmax a v) (x ! p) NInf"
  using assms by (simp add: MaxVar_getview_def as_array_nth max_acc_at)

lemma npsum_of_float64: "npsum_of float64 indata = npsum indata"
proof -
  have "fold (\<lambda>v s. s + v) indata (a::fl) = a + sum_list indata" for a
    by (induction indata arbitrary: a) (simp_all add: add.assoc)
  then show ?thesis by (simp add: npsum_of_def float64_def npsum_def)
qed

lemma fl_of_int_minus_one: "fl_of_int (int N - 1) = fl_of_int (int N) - 1"
  by (simp add: fl_of_int_def minus_fl_def one_fl_def)

lemma VarianceVar_float64_at:
  assumes "chunking_of x chunks" and "p < length x"
  shows "VarianceVar_getview float64 (length x) N chunks ! p
         = (sum_list (map (\<lambda>v. v * v) (x ! p))
              - fl_of_int (int N) * (sum_list (x ! p) / fl_of_int (int N)
                                     * (sum_list (x ! p) / fl_of_int (int N))))
           / fl_of_int (int N - 1)"
proof -
  have acc: "for_chunks
          (\<lambda>(x, x2) indata.
             (np_add float64 x (npsum_of float64 indata),
              np_add float64 x2 (npsum_of float64 (map (\<lambda>v. np_mul float64 v v) indata))))
          chunks (\<lambda>p. (np_zero float64, np_zero float64)) p
        = (sum_list (x ! p), sum_list (map (\<lambda>v. v * v) (x ! p)))"
    unfolding npsum_of_float64
    by (simp add: float64_def for_chunks_pair sum_acc_at_id[OF assms] sum_acc_at[OF assms])
  show ?thesis
    using assms(2) unfolding VarianceVar_getview_def
    by (simp add: as_array_def acc Let_def) (simp add: float64_def)
qed

lemma NANSumVar_at:
  assumes "chunking_of x chunks" and "p < length x" and "list_all fin_or_nan (x ! p)"
  shows "NANSumVar_getview (length x) chunks ! p = npnansum (x ! p)"
  using assms by (simp add: NANSumVar_getview_def as_array_nth nansum_acc_at_id)

lemma fin_or_nan_count: "fin_or_nan v \<Longrightarrow> fin_or_nan (1 + v * 0)"
  by (cases v) (simp_all add: fin_or_nan_def plus_fl_def times_fl_def one_fl_def zero_fl_def)

lemma fin_or_nan_square: "fin_or_nan v \<Longrightarrow> fin_or_nan (v * v)"
  by (cases v) (simp_all add: fin_or_nan_def times_fl_def)

lemma NANMeanVar_at:
  assumes "chunking_of x chunks" and "p < length x" and "list_all fin_or_nan (x ! p)"
  shows "NANMeanVar_getview (length x) chunks ! p
         = npnansum (x ! p) / npnansum (map (\<lambda>v. 1 + v * 0) (x ! p))"
proof -
  have c: "list_all fin_or_nan (map (\<lambda>v. 1 + v * 0) (x ! p))"
    using assms(3) by (simp add: list_all_iff fin_or_nan_count)
  show ?thesis
    using assms(2) unfolding NANMeanVar_getview_def
    by (simp add: as_array_def for_chunks_pair nansum_acc_at_id[OF assms]
          nansum_acc_at[OF assms(1,2) c])
qed

lemma NANVariance_acc_at:
  assumes "chunking_of x chunks" and "p < length x" and "list_all fin_or_nan (x ! p)"
  shows "for_chunks
           (\<lambda>(x, x2, n) indata.
              (nansum2 x (npnansum indata),
               nansum2 x2 (npnansum (map (\<lambda>v. v * v) indata)),
               nansum2 n (npnansum (map (\<lambda>v. 1 + v * 0) indata))))
           chunks (\<lambda>p. (0 * NaN, 0 * NaN, 0 * NaN)) p
         = (npnansum (x ! p), npnansum (map (\<lambda>v. v * v) (x ! p)),
            npnansum (map (\<lambda>v. 1 + v * 0) (x ! p)))"
proof -
  have c: "list_all fin_or_nan (map (\<lambda>v. 1 + v * 0) (x ! p))"
    using assms(3) by (simp add: list_all_iff fin_or_nan_count)
  have s: "list_all fin_or_nan (map (\<lambda>v. v * v) (x ! p))"
    using assms(3) by (simp add: list_all_iff fin_or_nan_square)
  show ?thesis
    by (simp add: for_chunks_triple nansum_acc_at_id[OF assms]
          nansum_acc_at[OF assms(1,2) c] nansum_acc_at[OF assms(1,2) s])
qed

text \<open>The part of \<open>NANVarianceVar.getview\<close> after the loop reads the accumulators at the
  positions of the output only.\<close>

lemma NANVariance_mask_cong:
  fixes A B :: "nat \<Rightarrow> fl \<times> fl \<times> fl"
  assumes "\<And>p. p < m \<Longrightarrow> A p = B p"
  shows "(let acc = A;
              zeros = map (first_axis_index inner)
                        (filter (\<lambda>p. case acc p of (x, x2, n) \<Rightarrow> fle n 1) [0..<m])
          in map (\<lambda>p. case acc p of (x, x2, n) \<Rightarrow>
                     (let x' = (if first_axis_index inner p \<in> set zeros then NaN else x);
                          x2' = (if first_axis_index inner p \<in> set zeros then NaN else x2)
                      in (x2' - x' * x' / n) / (n - 1)))
               [0..<m])
         = (let acc = B;
                zeros = map (first_axis_index inner)
                          (filter (\<lambda>p. case acc p of (x, x2, n) \<Rightarrow> fle n 1) [0..<m])
            in map (\<lambda>p. case acc p of (x, x2, n) \<Rightarrow>
                       (let x' = (if first_axis_index inner p \<in> set zeros then NaN else x);
                            x2' = (if first_axis_index inner p \<in> set zeros then NaN else x2)
                        in (x2' - x' * x' / n) / (n - 1)))
                 [0..<m])"
proof -
  have z: "filter (\<lambda>p. case A p of (x, x2, n) \<Rightarrow> fle n 1) [0..<m]
           = filter (\<lambda>p. case B p of (x, x2, n) \<Rightarrow> fle n 1) [0..<m]"
    by (rule filter_cong) (simp_all add: assms)
  show ?thesis
    unfolding Let_def z by (rule map_cong) (simp_all add: assms)
qed

lemma NANVarianceVar_chunk_invariant:
  assumes "chunking_of x c1" and "chunking_of x c2" and "list_all (list_all fin_or_nan) x"
  shows "NANVarianceVar_getview (length x) inner c1 = NANVarianceVar_getview (length x) inner c2"
  unfolding NANVarianceVar_getview_def
proof (rule NANVariance_mask_cong)
  fix p
  assume p: "p < length x"
  then have f: "list_all fin_or_nan (x ! p)"
    using assms(3) by (simp add: list_all_length)
  show "for_chunks
           (\<lambda>(x, x2, n) indata.
              (nansum2 x (npnansum indata),
               nansum2 x2 (npnansum (map (\<lambda>v. v * v) indata)),
               nansum2 n (npnansum (map (\<lambda>v. 1 + v * 0) indata))))
           c1 (\<lambda>p. (0 * NaN, 0 * NaN, 0 * NaN)) p
        = for_chunks
           (\<lambda>(x, x2, n) indata.
              (nansum2 x (npnansum indata),
               nansum2 x2 (npnansum (map (\<lambda>v. v * v) indata)),
               nansum2 n (npnansum (map (\<lambda>v. 1 + v * 0) indata))))
           c2 (\<lambda>p. (0 * NaN, 0 * NaN, 0 * NaN)) p"
    unfolding NANVariance_acc_at[OF assms(1) p f] NANVariance_acc_at[OF assms(2) p f] ..
qed

text \<open>
  The mask of \<open>NANVarianceVar.getview\<close> on an output of shape \<open>(2, 2)\<close>: the first position
  has a single element that is not NaN, so the whole first row of the output is NaN; on an
  output of shape \<open>(4,)\<close> with the same accumulators only the first position is.
\<close>

lemma NANVarianceVar_masks_rows:
  "NANVarianceVar_getview 4 2
     [[(0, [Fin 1, NaN, NaN]), (1, [Fin 1, Fin 2, Fin 3]),
       (2, [Fin 1, Fin 2, Fin 3]), (3, [Fin 2, Fin 4, Fin 6])]]
   = [NaN, NaN, Fin 1, Fin 4]
   \<and> NANVarianceVar_getview 4 1
     [[(0, [Fin 1, NaN, NaN]), (1, [Fin 1, Fin 2, Fin 3]),
       (2, [Fin 1, Fin 2, Fin 3]), (3, [Fin 2, Fin 4, Fin 6])]]
   = [NaN, Fin 1, Fin 1, Fin 4]"
proof -
  let ?c = "[[(0::nat, [Fin 1, NaN, NaN]), (1, [Fin 1, Fin 2, Fin 3]),
              (2, [Fin 1, Fin 2, Fin 3]), (3, [Fin 2, Fin 4, Fin 6])]]"
  let ?x = "[[Fin 1, NaN, NaN], [Fin 1, Fin 2, Fin 3], [Fin 1, Fin 2, Fin 3], [Fin 2, Fin 4, Fin 6]]"
  let ?A = "for_chunks
           (\<lambda>(x, x2, n) indata.
              (nansum2 x (npnansum indata),
               nansum2 x2 (npnansum (map (\<lambda>v. v * v) indata)),
               nansum2 n (npnansum (map (\<lambda>v. 1 + v * 0) indata))))
           [[(0::nat, [Fin 1, NaN, NaN]), (Suc 0, [Fin 1, Fin 2, Fin 3]),
             (2, [Fin 1, Fin 2, Fin 3]), (3, [Fin 2, Fin 4, Fin 6])]] (\<lambda>p. (NaN, NaN, NaN))"
  have c: "chunking_of ?x ?c"
    by (simp add: chunking_of_def contribs_def rows_def eval_nat_numeral)
  have f: "list_all fin_or_nan (?x ! p)" if "p < 4" for p
    using that by (auto simp: less_Suc_eq eval_nat_numeral fin_or_nan_def)
  have acc: "?A 0 = (Fin 1, Fin 1, Fin 1)" "?A (Suc 0) = (Fin 6, Fin 14, Fin 3)"
    "?A 2 = (Fin 6, Fin 14, Fin 3)" "?A 3 = (Fin 12, Fin 56, Fin 3)"
    using NANVariance_acc_at[OF c, of 0] NANVariance_acc_at[OF c, of 1]
      NANVariance_acc_at[OF c, of 2] NANVariance_acc_at[OF c, of 3] f[of 0] f[of 1] f[of 2] f[of 3]
    by (simp_all add: npnansum_def plus_fl_def times_fl_def one_fl_def zero_fl_def)
  have m: "[0..<4] = [0, 1, 2, 3]" by (simp add: eval_nat_numeral upt_rec)
  show ?thesis
    unfolding NANVarianceVar_getview_def Let_def m
    by (simp add: acc first_axis_index_def)
       (simp add: minus_fl_def times_fl_def divide_fl_def one_fl_def)
qed

subsection \<open>Accumulation by bins\<close>

lemma in_bin_simps [simp]:
  "in_bin b [] = []"
  "in_bin b ((b', v) # es) = (if b' = b then v # in_bin b es else in_bin b es)"
  "in_bin b (es @ fs) = in_bin b es @ in_bin b fs"
  by (simp_all add: in_bin_def)

lemma partial_sum_elems:
  "fold (bin_add q) elems (s0, c0)
   = (\<lambda>k. s0 k + (if fst k = q then sum_list (in_bin (snd k) elems) else 0),
      \<lambda>k. c0 k + (if fst k = q then int (length (in_bin (snd k) elems)) else 0))"
proof (induction elems arbitrary: s0 c0)
  case Nil
  then show ?case by (auto simp: fun_eq_iff)
next
  case (Cons e elems)
  obtain b v where e: "e = (b, v)" by (cases e)
  have "fold (bin_add q) (e # elems) (s0, c0)
        = fold (bin_add q) elems (s0((q, b) := s0 (q, b) + v), c0((q, b) := c0 (q, b) + 1))"
    by (simp add: e bin_add_def)
  also have "\<dots> = (\<lambda>k. (s0((q, b) := s0 (q, b) + v)) k
                          + (if fst k = q then sum_list (in_bin (snd k) elems) else 0),
                     \<lambda>k. (c0((q, b) := c0 (q, b) + 1)) k
                          + (if fst k = q then int (length (in_bin (snd k) elems)) else 0))"
    by (rule Cons.IH)
  also have "\<dots> = (\<lambda>k. s0 k + (if fst k = q then sum_list (in_bin (snd k) (e # elems)) else 0),
                     \<lambda>k. c0 k + (if fst k = q then int (length (in_bin (snd k) (e # elems))) else 0))"
    by (auto simp: fun_eq_iff add.assoc e)
  finally show ?case .
qed

lemma partial_sum_chunk:
  "partial_sum data (s0, c0)
   = (\<lambda>k. s0 k + sum_list (in_bin (snd k) (concat (map snd (filter (\<lambda>e. fst e = fst k) data)))),
      \<lambda>k. c0 k + int (length (in_bin (snd k) (concat (map snd (filter (\<lambda>e. fst e = fst k) data))))))"
  unfolding partial_sum_def
proof (induction data arbitrary: s0 c0)
  case Nil
  then show ?case by (auto simp: fun_eq_iff)
next
  case (Cons e data)
  obtain q elems where e: "e = (q, elems)" by (cases e)
  have "fold (\<lambda>(q, elems). fold (bin_add q) elems) (e # data) (s0, c0)
        = fold (\<lambda>(q, elems). fold (bin_add q) elems) data
            (\<lambda>k. s0 k + (if fst k = q then sum_list (in_bin (snd k) elems) else 0),
             \<lambda>k. c0 k + (if fst k = q then int (length (in_bin (snd k) elems)) else 0))"
    by (simp add: e partial_sum_elems)
  also have "\<dots> = (\<lambda>k. s0 k + sum_list (in_bin (snd k) (concat (map snd (filter (\<lambda>e. fst e = fst k) (e # data))))),
      \<lambda>k. c0 k + int (length (in_bin (snd k) (concat (map snd (filter (\<lambda>e. fst e = fst k) (e # data)))))))"
    unfolding Cons.IH by (auto simp: fun_eq_iff add.assoc e)
  finally show ?case .
qed

lemma fold_partial_sum:
  "fold partial_sum chunks (s0, c0)
   = (\<lambda>k. s0 k + sum_list (in_bin (snd k) (contribs chunks (fst k))),
      \<lambda>k. c0 k + int (length (in_bin (snd k) (contribs chunks (fst k)))))"
proof (induction chunks arbitrary: s0 c0)
  case Nil
  then show ?case by (auto simp: contribs_def rows_def fun_eq_iff)
next
  case (Cons c chunks)
  have "fold partial_sum (c # chunks) (s0, c0) = fold partial_sum chunks (partial_sum c (s0, c0))"
    by simp
  also have "\<dots> = (\<lambda>k. s0 k + sum_list (in_bin (snd k) (contribs (c # chunks) (fst k))),
      \<lambda>k. c0 k + int (length (in_bin (snd k) (contribs (c # chunks) (fst k)))))"
    unfolding partial_sum_chunk Cons.IH
    by (auto simp: fun_eq_iff add.assoc contribs_def rows_def)
  finally show ?case .
qed

lemma in_bin_mset:
  assumes "mset es = mset fs"
  shows "mset (in_bin b es) = mset (in_bin b fs)"
proof -
  have "mset (in_bin b zs) = image_mset snd (filter_mset (\<lambda>e. fst e = b) (mset zs))" for zs :: "(nat \<times> 'a) list"
    by (simp add: in_bin_def)
  then show ?thesis using assms by simp
qed

lemma in_bin_map: "in_bin b (map (\<lambda>(b, v). (b, h v)) es) = map h (in_bin b es)"
  by (induction es) auto

lemma contribs_chunk_map:
  "contribs (map (chunk_map h) chunks) q = map (\<lambda>(b, v). (b, h v)) (contribs chunks q)"
proof -
  have "rows (map (chunk_map h) chunks) q = map (map (\<lambda>(b, v). (b, h v))) (rows chunks q)"
    unfolding rows_def chunk_map_def
    by (induction chunks) (simp_all add: filter_map comp_def case_prod_beta)
  then show ?thesis by (simp add: contribs_def map_concat)
qed

subsection \<open>The values of the temporal aggregates\<close>

lemma as_array2_nth:
  "q < nq \<Longrightarrow> b < nbins \<Longrightarrow> as_array2 nq nbins cell ! q ! b = cell (q, b)"
  by (simp add: as_array2_def)

lemma as_array2_cong:
  "(\<And>q b. q < nq \<Longrightarrow> b < nbins \<Longrightarrow> f (q, b) = g (q, b)) \<Longrightarrow>
   as_array2 nq nbins f = as_array2 nq nbins g"
  by (simp add: as_array2_def)

lemma sum_length_mset:
  assumes "mset xs = mset ys"
  shows "sum_list (map h xs) = (sum_list (map h ys) :: fl)" and "length xs = length ys"
proof -
  have "mset (map h xs) = mset (map h ys)" using assms by simp
  then show "sum_list (map h xs) = (sum_list (map h ys) :: fl)" by (rule sum_list_mset_fl)
  show "length xs = length ys" using assms by (rule mset_eq_length)
qed

lemma wrap32_add: "wrap32 (wrap32 a + n) = wrap32 (a + n)"
proof -
  have "wrap32 a + n + 2 ^ 31 = (a + 2 ^ 31) mod 2 ^ 32 + n"
    by (simp add: wrap32_def)
  then have "(wrap32 a + n + 2 ^ 31) mod 2 ^ 32 = ((a + 2 ^ 31) mod 2 ^ 32 + n) mod 2 ^ 32"
    by (rule arg_cong)
  also have "\<dots> = (a + 2 ^ 31 + n) mod 2 ^ 32"
    by (rule mod_add_left_eq)
  also have "a + 2 ^ 31 + n = a + n + 2 ^ 31"
    by simp
  finally show ?thesis
    unfolding wrap32_def[of "wrap32 a + n"] wrap32_def[of "a + n"] by (rule arg_cong)
qed

lemma as_int32_partial_sum:
  "as_int32 (partial_sum data (as_int32 sc)) = as_int32 (partial_sum data sc)"
  by (cases sc) (simp add: as_int32_def partial_sum_chunk wrap32_add)

lemma fold_as_int32:
  "fold (\<lambda>data sc. as_int32 (partial_sum data sc)) chunks (as_int32 sc)
   = as_int32 (fold partial_sum chunks sc)"
proof (induction chunks arbitrary: sc)
  case Nil
  then show ?case by simp
next
  case (Cons c chunks)
  have "fold (\<lambda>data sc. as_int32 (partial_sum data sc)) (c # chunks) (as_int32 sc)
        = fold (\<lambda>data sc. as_int32 (partial_sum data sc)) chunks (as_int32 (partial_sum c sc))"
    by (simp add: as_int32_partial_sum)
  also have "\<dots> = as_int32 (fold partial_sum chunks (partial_sum c sc))"
    by (rule Cons.IH)
  finally show ?case by simp
qed

lemma Mean_cell:
  "Mean_getview nq nbins chunks
   = as_array2 nq nbins
       (\<lambda>k. sum_list (in_bin (snd k) (contribs chunks (fst k)))
            / fl_of_int (wrap32 (int (length (in_bin (snd k) (contribs chunks (fst k)))))))"
proof -
  have z: "as_int32 (\<lambda>k. 0, \<lambda>k. 0) = (\<lambda>k. 0, \<lambda>k. 0)"
    by (simp add: as_int32_def wrap32_def)
  have "fold (\<lambda>data sc. as_int32 (partial_sum data sc)) chunks (\<lambda>k. 0, \<lambda>k. 0)
        = as_int32 (fold partial_sum chunks (\<lambda>k. 0, \<lambda>k. 0))"
    using fold_as_int32[of chunks "(\<lambda>k. 0, \<lambda>k. 0)"] unfolding z .
  then show ?thesis
    by (simp add: Mean_getview_def fold_partial_sum as_int32_def)
qed

lemma fold_Trend_step:
  "fold Trend_step chunks (F, X, XF, X2)
   = (fold partial_sum (map (chunk_map (\<lambda>(data, t). data)) chunks) F,
      fold partial_sum (map (chunk_map (\<lambda>(data, t). t)) chunks) X,
      fold partial_sum (map (chunk_map (\<lambda>(data, t). data * t)) chunks) XF,
      fold partial_sum (map (chunk_map (\<lambda>(data, t). t * t)) chunks) X2)"
  by (induction chunks arbitrary: F X XF X2) (simp_all add: Trend_step_def)

lemma fmul_commute: "fmul a b = fmul b a"
  by (cases a; cases b) (simp_all add: mult.commute)

lemma times_fl_commute: "a * b = b * (a :: fl)"
  by (simp add: times_fl_def fmul_commute)

text \<open>The coefficients that the accumulated means of a list of pairs (value, time) give.\<close>

lemma Trend_cell:
  "Trend_getview nq nbins chunks
   = as_array2 nq nbins
       (\<lambda>k. [lsq_intercept (in_bin (snd k) (contribs chunks (fst k))),
             lsq_slope (in_bin (snd k) (contribs chunks (fst k)))])"
proof -
  have m: "map2 (\<lambda>t x. t * x) (map snd S) (map fst S) = map (\<lambda>(data, t). data * t) S"
    for S :: "(fl \<times> fl) list"
    by (induction S) (auto simp: times_fl_commute)
  have f: "map (\<lambda>(data, t). data) S = map fst S" "map (\<lambda>(data, t). t) S = map snd S"
    "map (\<lambda>(data, t). t * t) S = map (\<lambda>t. t * t) (map snd S)"
    for S :: "(fl \<times> fl) list"
    by (simp_all add: case_prod_beta comp_def)
  show ?thesis
    unfolding Trend_getview_def fold_Trend_step
    by (simp add: fold_partial_sum contribs_chunk_map in_bin_map lsq_slope_def lsq_intercept_def
          E_def Let_def m f)
qed

lemma E_mset:
  assumes "mset xs = mset ys"
  shows "E (map h xs) = E (map h ys)"
  using sum_length_mset[OF assms] by (simp add: E_def)

lemma lsq_mset:
  assumes "mset S = mset T"
  shows "lsq_slope S = lsq_slope T" and "lsq_intercept S = lsq_intercept T"
proof -
  have m: "map2 (\<lambda>t x. t * x) (map snd S) (map fst S) = map (\<lambda>(data, t). t * data) S"
    for S :: "(fl \<times> fl) list"
    by (induction S) auto
  have sq: "map (\<lambda>t. t * t) (map snd S) = map (\<lambda>p. snd p * snd p) S" for S :: "(fl \<times> fl) list"
    by simp
  show "lsq_slope S = lsq_slope T"
    unfolding lsq_slope_def Let_def m sq
    using E_mset[OF assms, of fst] E_mset[OF assms, of snd]
      E_mset[OF assms, of "\<lambda>(data, t). t * data"] E_mset[OF assms, of "\<lambda>p. snd p * snd p"]
    by simp
  show "lsq_intercept S = lsq_intercept T"
    unfolding lsq_intercept_def Let_def m sq
    using E_mset[OF assms, of fst] E_mset[OF assms, of snd]
      E_mset[OF assms, of "\<lambda>(data, t). t * data"] E_mset[OF assms, of "\<lambda>p. snd p * snd p"]
    by simp
qed

lemma Mean_at:
  assumes "chunking_of y chunks" and "q < length y" and "b < nbins"
  shows "Mean_getview (length y) nbins chunks ! q ! b
         = sum_list (in_bin b (y ! q)) / fl_of_int (wrap32 (int (length (in_bin b (y ! q)))))"
proof -
  have "mset (in_bin b (contribs chunks q)) = mset (in_bin b (y ! q))"
    using chunking_of_mset[OF assms(1,2)] by (rule in_bin_mset)
  from sum_length_mset(1)[OF this, of "\<lambda>v. v"] sum_length_mset(2)[OF this] show ?thesis
    using assms(2,3) by (simp add: Mean_cell as_array2_nth)
qed

lemma Trend_at:
  assumes "chunking_of z chunks" and "q < length z" and "b < nbins"
  shows "Trend_getview (length z) nbins chunks ! q ! b
         = [lsq_intercept (in_bin b (z ! q)), lsq_slope (in_bin b (z ! q))]"
proof -
  have "mset (in_bin b (contribs chunks q)) = mset (in_bin b (z ! q))"
    using chunking_of_mset[OF assms(1,2)] by (rule in_bin_mset)
  from lsq_mset[OF this] show ?thesis
    using assms(2,3) by (simp add: Trend_cell as_array2_nth)
qed

section \<open>Results about the reductions\<close>

lemma fin_or_nan_counts:
  assumes "list_all fin_or_nan xs"
  shows "npnansum (map (\<lambda>v. 1 + v * 0) xs)
         = (if list_all isnan xs then NaN else Fin (real (length (finite_vals xs))))"
proof -
  have c: "list_all fin_or_nan (map (\<lambda>v. 1 + v * 0) xs)"
    using assms by (simp add: list_all_iff fin_or_nan_count)
  have n: "list_all isnan (map (\<lambda>v. 1 + v * 0) xs) = list_all isnan xs"
    using assms
  proof (induction xs)
    case Nil
    then show ?case by simp
  next
    case (Cons v xs)
    then show ?case
      by (cases v) (simp_all add: fin_or_nan_def plus_fl_def times_fl_def one_fl_def zero_fl_def)
  qed
  have f: "sum_list (finite_vals (map (\<lambda>v. 1 + v * 0) xs)) = real (length (finite_vals xs))"
    using assms
  proof (induction xs)
    case Nil
    then show ?case by simp
  next
    case (Cons v xs)
    then show ?case
      by (cases v) (simp_all add: fin_or_nan_def plus_fl_def times_fl_def one_fl_def zero_fl_def)
  qed
  show ?thesis by (simp add: npnansum_fin_or_nan[OF c] n f)
qed

text \<open>
  Claim C3, for inputs whose elements are finite or NaN.  For every way of cutting the
  input into chunks, \<open>nansum\<close> gives at an output position the sum of the finite elements
  reduced into it, and \<open>nanmean\<close> that sum divided by their number; when all the elements
  reduced into the position are NaN, and only then, the result is NaN.
\<close>

theorem nansum_nanmean_skip_NaN:
  assumes "chunking_of x chunks" and "p < length x" and "list_all fin_or_nan (x ! p)"
  shows "NANSumVar_getview (length x) chunks ! p
           = (if list_all isnan (x ! p) then NaN else Fin (sum_list (finite_vals (x ! p))))
       \<and> NANMeanVar_getview (length x) chunks ! p
           = (if list_all isnan (x ! p) then NaN
              else Fin (sum_list (finite_vals (x ! p)) / real (length (finite_vals (x ! p)))))
       \<and> (isnan (NANSumVar_getview (length x) chunks ! p) \<longleftrightarrow> list_all isnan (x ! p))
       \<and> (isnan (NANMeanVar_getview (length x) chunks ! p) \<longleftrightarrow> list_all isnan (x ! p))"
proof -
  have s: "NANSumVar_getview (length x) chunks ! p
           = (if list_all isnan (x ! p) then NaN else Fin (sum_list (finite_vals (x ! p))))"
    by (simp add: NANSumVar_at[OF assms] npnansum_fin_or_nan[OF assms(3)])
  have pos: "\<not> list_all isnan (x ! p) \<Longrightarrow> real (length (finite_vals (x ! p))) \<noteq> 0"
    using all_nan_finite_vals[OF assms(3)] by simp
  have m: "NANMeanVar_getview (length x) chunks ! p
           = (if list_all isnan (x ! p) then NaN
              else Fin (sum_list (finite_vals (x ! p)) / real (length (finite_vals (x ! p)))))"
    using pos
    by (simp add: NANMeanVar_at[OF assms] npnansum_fin_or_nan[OF assms(3)]
          fin_or_nan_counts[OF assms(3)] divide_fl_def)
  show ?thesis unfolding s m by simp
qed

theorem nansum_nanmean_skip_NaN_witness:
  "chunking_of [[Fin 1, NaN, Fin 5], [NaN]] [[(0, [NaN]), (1, [NaN])], [(0, [Fin 5, Fin 1])]]
   \<and> NANSumVar_getview 2 [[(0, [NaN]), (1, [NaN])], [(0, [Fin 5, Fin 1])]] ! 0 = Fin 6
   \<and> NANMeanVar_getview 2 [[(0, [NaN]), (1, [NaN])], [(0, [Fin 5, Fin 1])]] ! 0 = Fin 3
   \<and> NANSumVar_getview 2 [[(0, [NaN]), (1, [NaN])], [(0, [Fin 5, Fin 1])]] ! 1 = NaN
   \<and> NANMeanVar_getview 2 [[(0, [NaN]), (1, [NaN])], [(0, [Fin 5, Fin 1])]] ! 1 = NaN"
proof -
  let ?x = "[[Fin 1, NaN, Fin 5], [NaN]]"
  let ?c = "[[(0, [NaN]), (1, [NaN])], [(0, [Fin 5, Fin 1])]]"
  have c: "chunking_of ?x ?c"
    by (simp add: chunking_of_def contribs_def rows_def)
  have f0: "list_all fin_or_nan (?x ! 0)" and f1: "list_all fin_or_nan (?x ! 1)"
    by (simp_all add: fin_or_nan_def)
  from nansum_nanmean_skip_NaN[OF c _ f0] nansum_nanmean_skip_NaN[OF c _ f1] c
  show ?thesis by (simp add: eval_nat_numeral)
qed

text \<open>
  Claim C3 as stated fails on infinite elements: the elements \<open>inf\<close> and \<open>-inf\<close>, neither
  of them NaN, sum to NaN under \<open>nansum\<close>, and the single element \<open>inf\<close> has the
  \<open>nanmean\<close> NaN.
\<close>

theorem nansum_nanmean_NaN_without_NaN_input:
  "chunking_of [[PInf, NInf]] [[(0, [PInf, NInf])]]
   \<and> list_all (\<lambda>v. \<not> isnan v) [PInf, NInf]
   \<and> NANSumVar_getview 1 [[(0, [PInf, NInf])]] ! 0 = NaN
   \<and> chunking_of [[PInf]] [[(0, [PInf])]]
   \<and> NANMeanVar_getview 1 [[(0, [PInf])]] ! 0 = NaN"
  by (simp add: chunking_of_def contribs_def rows_def NANSumVar_getview_def NANMeanVar_getview_def
        as_array_def for_chunks_def update_slice_def nansum2_def npnansum_def
        plus_fl_def times_fl_def zero_fl_def one_fl_def divide_fl_def inf_of_sign_def)

lemma length_VarianceVar_getview: "length (VarianceVar_getview ops m N chunks) = m"
  by (simp add: VarianceVar_getview_def as_array_def)

lemma VarianceVar_float64_spec:
  assumes "chunking_of x chunks" and "p < length x" and "length (x ! p) = N"
  shows "VarianceVar_getview float64 (length x) N chunks ! p = spec_variance (x ! p)"
  using assms(3)
  by (simp add: VarianceVar_float64_at[OF assms(1,2)] spec_variance_def Let_def
        fl_of_int_minus_one)

lemma SDVar_float64_spec:
  assumes "chunking_of x chunks" and "p < length x" and "length (x ! p) = N"
  shows "SDVar_getview float64 (length x) N chunks ! p = spec_stdev (x ! p)"
  using assms(2)
  by (simp add: SDVar_getview_def length_VarianceVar_getview VarianceVar_float64_spec[OF assms]
        spec_stdev_def) (simp add: float64_def)

lemma spec_variance_series:
  "spec_variance [Fin 1, Fin 2, Fin 3, Fin 4, Fin 5] = Fin (5 / 2)"
  by (simp add: spec_variance_def Let_def fl_of_int_def plus_fl_def minus_fl_def times_fl_def
        divide_fl_def zero_fl_def one_fl_def)

lemma spec_stdev_series:
  "spec_stdev [Fin 1, Fin 2, Fin 3, Fin 4, Fin 5] = Fin (sqrt (5 / 2))"
  by (simp add: spec_stdev_def spec_variance_series zero_fl_def)

text \<open>
  Claim C2, for floating-point data.  However the input is cut into chunks, the variance
  at an output position is \<open>(sum(x\<^sup>2) - N * mean\<^sup>2) / (N - 1)\<close> over the \<open>N\<close> elements reduced
  into it, and the standard deviation is the square root of that variance clamped at
  zero; for the series 1, 2, 3, 4, 5 they are \<open>2.5\<close> and \<open>sqrt 2.5\<close>.
\<close>

theorem variance_stdev_float64:
  assumes "chunking_of x chunks" and "p < length x" and "length (x ! p) = N"
  shows "VarianceVar_getview float64 (length x) N chunks ! p = spec_variance (x ! p)
       \<and> SDVar_getview float64 (length x) N chunks ! p = spec_stdev (x ! p)
       \<and> (x ! p = [Fin 1, Fin 2, Fin 3, Fin 4, Fin 5] \<longrightarrow>
            VarianceVar_getview float64 (length x) N chunks ! p = Fin (5 / 2)
            \<and> SDVar_getview float64 (length x) N chunks ! p = Fin (sqrt (5 / 2)))"
  by (simp add: VarianceVar_float64_spec[OF assms] SDVar_float64_spec[OF assms]
        spec_variance_series spec_stdev_series)

theorem variance_stdev_float64_witness:
  "chunking_of [[Fin 1, Fin 2, Fin 3, Fin 4, Fin 5]]
     [[(0, [Fin 4, Fin 5])], [(0, [Fin 1, Fin 2, Fin 3])]]
   \<and> VarianceVar_getview float64 1 5 [[(0, [Fin 4, Fin 5])], [(0, [Fin 1, Fin 2, Fin 3])]] ! 0
       = Fin (5 / 2)
   \<and> SDVar_getview float64 1 5 [[(0, [Fin 4, Fin 5])], [(0, [Fin 1, Fin 2, Fin 3])]] ! 0
       = Fin (sqrt (5 / 2))"
proof -
  let ?x = "[[Fin 1, Fin 2, Fin 3, Fin 4, Fin 5]]"
  let ?c = "[[(0, [Fin 4, Fin 5])], [(0, [Fin 1, Fin 2, Fin 3])]]"
  have c: "chunking_of ?x ?c"
    by (simp add: chunking_of_def contribs_def rows_def)
  have len: "0 < length ?x" and n: "length (?x ! 0) = 5" by simp_all
  have s: "?x ! 0 = [Fin 1, Fin 2, Fin 3, Fin 4, Fin 5]" by simp
  from variance_stdev_float64[OF c len n] s
  have "VarianceVar_getview float64 (length ?x) 5 ?c ! 0 = Fin (5 / 2)
        \<and> SDVar_getview float64 (length ?x) 5 ?c ! 0 = Fin (sqrt (5 / 2))"
    by blast
  then show ?thesis using c by simp
qed

text \<open>
  Claim C2 as stated fails on integer data: with the series 1, 2, 3, 4, 5 held as 64-bit
  integers the accumulators and both divisions are integer ones, the variance comes out
  as \<open>2\<close> and the standard deviation as \<open>sqrt 2\<close>.
\<close>

theorem variance_stdev_int64_series:
  "chunking_of [[1, 2, 3, 4, 5 :: int]] [[(0, [1, 2, 3, 4, 5])]]
   \<and> VarianceVar_getview int64 1 5 [[(0, [1, 2, 3, 4, 5])]] = [2]
   \<and> SDVar_getview int64 1 5 [[(0, [1, 2, 3, 4, 5])]] = [Fin (sqrt 2)]
   \<and> real_of_int 2 \<noteq> 5 / 2"
proof -
  have w: "wrap64 y = y" if "- 100 \<le> y" and "y \<le> 100" for y
  proof -
    have "0 \<le> y + 2 ^ 63" and "y + 2 ^ 63 < 2 ^ 64" using that by simp_all
    then have "(y + 2 ^ 63) mod 2 ^ 64 = y + 2 ^ 63" by (rule mod_pos_pos_trivial)
    then show ?thesis by (simp add: wrap64_def)
  qed
  have v: "VarianceVar_getview int64 1 5 [[(0, [1, 2, 3, 4, 5])]] = [2]"
    by (simp add: VarianceVar_getview_def as_array_def for_chunks_def update_slice_def
          npsum_of_def int64_def Let_def w)
  have s: "SDVar_getview int64 1 5 [[(0, [1, 2, 3, 4, 5])]] = [Fin (sqrt 2)]"
    unfolding SDVar_getview_def v by (simp add: int64_def)
  have c: "chunking_of [[1, 2, 3, 4, 5 :: int]] [[(0, [1, 2, 3, 4, 5])]]"
    by (simp add: chunking_of_def contribs_def rows_def)
  show ?thesis using v s c by simp
qed

lemma length_getview: "length (getview k m inner N chunks) = m"
  by (cases k)
     (simp_all add: MinVar_getview_def MaxVar_getview_def SumVar_getview_def MeanVar_getview_def
        SDVar_getview_def length_VarianceVar_getview NANSumVar_getview_def NANMeanVar_getview_def
        NANVarianceVar_getview_def NANSDVar_getview_def as_array_def Let_def)

lemma getview_nth_eq:
  assumes c1: "chunking_of x c1" and c2: "chunking_of x c2" and p: "p < length x"
    and f: "nan_aware k \<Longrightarrow> list_all fin_or_nan (x ! p)"
    and k: "k \<noteq> KNanVariance" "k \<noteq> KNanStdev"
  shows "getview k (length x) inner N c1 ! p = getview k (length x) inner N c2 ! p"
proof (cases k)
  case KMin
  then show ?thesis by (simp add: MinVar_at[OF c1 p] MinVar_at[OF c2 p])
next
  case KMax
  then show ?thesis by (simp add: MaxVar_at[OF c1 p] MaxVar_at[OF c2 p])
next
  case KSum
  then show ?thesis by (simp add: SumVar_at[OF c1 p] SumVar_at[OF c2 p])
next
  case KMean
  then show ?thesis by (simp add: MeanVar_at[OF c1 p] MeanVar_at[OF c2 p])
next
  case KVariance
  then show ?thesis
    by (simp add: VarianceVar_float64_at[OF c1 p] VarianceVar_float64_at[OF c2 p])
next
  case KStdev
  then show ?thesis
    using p
    by (simp add: SDVar_getview_def length_VarianceVar_getview
          VarianceVar_float64_at[OF c1 p] VarianceVar_float64_at[OF c2 p])
next
  case KNanSum
  with f have "list_all fin_or_nan (x ! p)" by simp
  then show ?thesis
    using KNanSum by (simp add: NANSumVar_at[OF c1 p] NANSumVar_at[OF c2 p])
next
  case KNanMean
  with f have "list_all fin_or_nan (x ! p)" by simp
  then show ?thesis
    using KNanMean by (simp add: NANMeanVar_at[OF c1 p] NANMeanVar_at[OF c2 p])
qed (use k in simp_all)

lemma getview_chunk_invariant:
  assumes "chunking_of x c1" and "chunking_of x c2"
    and "nan_aware k \<longrightarrow> list_all (list_all fin_or_nan) x"
  shows "getview k (length x) inner N c1 = getview k (length x) inner N c2"
proof (cases "k = KNanVariance \<or> k = KNanStdev")
  case True
  then have "list_all (list_all fin_or_nan) x" using assms(3) by auto
  from NANVarianceVar_chunk_invariant[OF assms(1,2) this] True show ?thesis
    by (auto simp: NANSDVar_getview_def)
next
  case False
  show ?thesis
  proof (rule nth_equalityI)
    show "length (getview k (length x) inner N c1) = length (getview k (length x) inner N c2)"
      by (simp add: length_getview)
  next
    fix p
    assume "p < length (getview k (length x) inner N c1)"
    then have p: "p < length x" by (simp add: length_getview)
    have "nan_aware k \<Longrightarrow> list_all fin_or_nan (x ! p)"
      using assms(3) p by (simp add: list_all_length)
    with assms(1,2) p show "getview k (length x) inner N c1 ! p = getview k (length x) inner N c2 ! p"
      using False by (intro getview_nth_eq) simp_all
  qed
qed

lemma Mean_chunk_invariant:
  assumes "chunking_of y d1" and "chunking_of y d2"
  shows "Mean_getview (length y) nbins d1 = Mean_getview (length y) nbins d2"
  unfolding Mean_cell
proof (rule as_array2_cong)
  fix q b
  assume q: "q < length y"
  have "mset (in_bin b (contribs d1 q)) = mset (in_bin b (contribs d2 q))"
    by (rule in_bin_mset)
       (simp only: chunking_of_mset[OF assms(1) q] chunking_of_mset[OF assms(2) q])
  from sum_length_mset(1)[OF this, of "\<lambda>v. v"] sum_length_mset(2)[OF this]
  show "sum_list (in_bin (snd (q, b)) (contribs d1 (fst (q, b))))
          / fl_of_int (wrap32 (int (length (in_bin (snd (q, b)) (contribs d1 (fst (q, b)))))))
        = sum_list (in_bin (snd (q, b)) (contribs d2 (fst (q, b))))
          / fl_of_int (wrap32 (int (length (in_bin (snd (q, b)) (contribs d2 (fst (q, b)))))))"
    by simp
qed

lemma Trend_chunk_invariant:
  assumes "chunking_of z e1" and "chunking_of z e2"
  shows "Trend_getview (length z) nbins e1 = Trend_getview (length z) nbins e2"
  unfolding Trend_cell
proof (rule as_array2_cong)
  fix q b
  assume q: "q < length z"
  have "mset (in_bin b (contribs e1 q)) = mset (in_bin b (contribs e2 q))"
    by (rule in_bin_mset)
       (simp only: chunking_of_mset[OF assms(1) q] chunking_of_mset[OF assms(2) q])
  from lsq_mset[OF this]
  show "[lsq_intercept (in_bin (snd (q, b)) (contribs e1 (fst (q, b)))),
         lsq_slope (in_bin (snd (q, b)) (contribs e1 (fst (q, b))))]
        = [lsq_intercept (in_bin (snd (q, b)) (contribs e2 (fst (q, b)))),
           lsq_slope (in_bin (snd (q, b)) (contribs e2 (fst (q, b))))]"
    by simp
qed

section \<open>Results about the trend\<close>

lemma first_index_less: "first_index P xs = Some i \<Longrightarrow> i < length xs"
  by (induction xs arbitrary: i) (auto split: if_splits)

lemma whichaxis_less: "whichaxis v iaxis = Inr i \<Longrightarrow> i < naxes v"
  by (auto simp: whichaxis_def naxes_def issubclass_Axis_def first_index_less
        split: ident.splits option.splits if_splits sum.splits)

text \<open>
  Claim C7, as the code has it.  On a variable with a time axis, the construction of the
  trend fails with the assertion error exactly when the time axis has at most one time
  step; the test is on the length of the axis, before anything is evaluated, and a
  failed construction returns nothing but the error.
\<close>

theorem Trend_init_needs_two_timesteps:
  assumes "whichaxis v CalendarTime = Inr ti"
  shows "(len_axis (v_axes v ! ti) \<le> 1 \<longrightarrow> Trend_init outtime v = Inl AssertionError)
       \<and> (1 < len_axis (v_axes v ! ti) \<longrightarrow> (\<exists>r. Trend_init outtime v = Inr r))"
proof -
  have "ti < length (v_axes v)"
    using whichaxis_less[OF assms] by (simp add: naxes_def)
  then have "shape v ! ti = len_axis (v_axes v ! ti)"
    by (simp add: shape_def)
  then show ?thesis
    using assms by (simp add: Trend_init_def TimeOp_init_def Var_init_def)
qed

theorem Trend_init_needs_two_timesteps_witness:
  "whichaxis (twice_var\<lparr>v_axes := [time_once]\<rparr>) CalendarTime = Inr 0
   \<and> len_axis time_once \<le> 1
   \<and> Trend_init time_once (twice_var\<lparr>v_axes := [time_once]\<rparr>) = Inl AssertionError
   \<and> whichaxis twice_var CalendarTime = Inr 0
   \<and> 1 < len_axis time_twice
   \<and> \<not> isl (Trend_init time_once twice_var)"
proof -
  let ?v = "twice_var\<lparr>v_axes := [time_once]\<rparr>"
  have w1: "whichaxis ?v CalendarTime = Inr 0"
    by (simp add: whichaxis_def CalendarTime_def issubclass_Axis_def isinstance_axis_def
          twice_var_def time_once_def)
  have w2: "whichaxis twice_var CalendarTime = Inr 0"
    by (simp add: whichaxis_def CalendarTime_def issubclass_Axis_def isinstance_axis_def
          twice_var_def time_twice_def)
  have l1: "len_axis (v_axes ?v ! 0) \<le> 1" and l2: "1 < len_axis (v_axes twice_var ! 0)"
    by (simp_all add: len_axis_def twice_var_def time_once_def time_twice_def)
  from Trend_init_needs_two_timesteps[OF w1, of time_once] l1
  have a: "Trend_init time_once ?v = Inl AssertionError" by blast
  from Trend_init_needs_two_timesteps[OF w2, of time_once] l2
  have b: "\<not> isl (Trend_init time_once twice_var)" by auto
  show ?thesis
    using w1 w2 a b by (simp add: len_axis_def time_once_def time_twice_def)
qed

text \<open>
  Claim C7 as stated fails: the time axis of \<open>twice_var\<close> holds one time sample twice, so
  it has no two distinct time samples, and yet the trend is constructed.
\<close>

theorem Trend_init_accepts_equal_times:
  "ax_values (v_axes twice_var ! 0) = [0, 0]
   \<and> card (set (ax_values (v_axes twice_var ! 0))) = 1
   \<and> whichaxis twice_var CalendarTime = Inr 0
   \<and> \<not> isl (Trend_init time_once twice_var)"
  by (simp add: Trend_init_def TimeOp_init_def Var_init_def whichaxis_def CalendarTime_def
        issubclass_Axis_def isinstance_axis_def twice_var_def time_twice_def shape_def
        len_axis_def)

subsection \<open>The least-squares line on finite data\<close>

lemma sum_list_Fin: "sum_list (map Fin rs) = Fin (sum_list rs)"
  by (induction rs) (simp_all add: zero_fl_def plus_fl_def)

lemma E_Fin: "rs \<noteq> [] \<Longrightarrow> E (map Fin rs) = Fin (sum_list rs / real (length rs))"
  by (simp add: E_def sum_list_Fin fl_of_int_def divide_fl_def)

text \<open>The spread of the times in a list is positive unless all of them are equal.\<close>

lemma sum_sq_dev:
  "(\<Sum>t\<leftarrow>ts. (t - c) * (t - c))
   = (\<Sum>t\<leftarrow>ts. t * t) - 2 * c * sum_list ts + real (length ts) * (c * c)"
  by (induction ts) (simp_all add: algebra_simps)

lemma sum_sq_dev_pos:
  assumes "a \<in> set ts" and "a \<noteq> (c::real)"
  shows "0 < (\<Sum>t\<leftarrow>ts. (t - c) * (t - c))"
proof -
  obtain ys zs where ts: "ts = ys @ a # zs"
    using assms(1) by (auto dest: split_list)
  have "0 \<le> (\<Sum>t\<leftarrow>ys. (t - c) * (t - c))" and "0 \<le> (\<Sum>t\<leftarrow>zs. (t - c) * (t - c))"
    by (auto intro!: sum_list_nonneg)
  moreover have "0 < (a - c) * (a - c)"
    using assms(2) by (auto simp: zero_less_mult_iff)
  ultimately show ?thesis by (simp add: ts)
qed

lemma spread_pos:
  assumes "a \<in> set ts" and "b \<in> set ts" and "a \<noteq> (b::real)"
  shows "0 < (\<Sum>t\<leftarrow>ts. t * t) / real (length ts)
             - sum_list ts / real (length ts) * (sum_list ts / real (length ts))"
proof -
  define n where "n = real (length ts)"
  define c where "c = sum_list ts / n"
  have n: "0 < n" using assms(1) by (cases ts) (simp_all add: n_def)
  have "a \<noteq> c \<or> b \<noteq> c" using assms(3) by auto
  then have "0 < (\<Sum>t\<leftarrow>ts. (t - c) * (t - c))"
    using assms(1,2) sum_sq_dev_pos by blast
  also have "\<dots> = (\<Sum>t\<leftarrow>ts. t * t) - 2 * c * sum_list ts + n * (c * c)"
    by (simp add: sum_sq_dev n_def)
  also have "\<dots> = (\<Sum>t\<leftarrow>ts. t * t) - n * (c * c)"
    using n by (simp add: c_def field_simps)
  finally have "0 < ((\<Sum>t\<leftarrow>ts. t * t) - n * (c * c)) / n"
    using n by simp
  also have "\<dots> = (\<Sum>t\<leftarrow>ts. t * t) / n - c * c"
    using n by (simp add: field_simps)
  finally show ?thesis by (simp add: n_def c_def)
qed

text \<open>On finite data with a non-zero spread of the times the coefficients are finite.\<close>

lemma lsq_finite:
  fixes rs :: "(real \<times> real) list"
  defines "n \<equiv> real (length rs)"
  defines "Ev \<equiv> sum_list (map fst rs) / n" and "Et \<equiv> sum_list (map snd rs) / n"
  defines "Etv \<equiv> (\<Sum>(v, t)\<leftarrow>rs. t * v) / n" and "Ett \<equiv> (\<Sum>(v, t)\<leftarrow>rs. t * t) / n"
  assumes ne: "rs \<noteq> []" and D: "Ett - Et * Et \<noteq> 0"
  shows "lsq_slope (map (\<lambda>(v, t). (Fin v, Fin t)) rs) = Fin ((Etv - Et * Ev) / (Ett - Et * Et))"
    and "lsq_intercept (map (\<lambda>(v, t). (Fin v, Fin t)) rs)
         = Fin ((Ett * Ev - Et * Etv) / (Ett - Et * Et))"
proof -
  let ?S = "map (\<lambda>(v, t). (Fin v, Fin t)) rs"
  have f: "map fst ?S = map Fin (map fst rs)" and s: "map snd ?S = map Fin (map snd rs)"
    by (simp_all add: case_prod_beta comp_def)
  have p: "map2 (\<lambda>t x. t * x) (map Fin (map snd rs)) (map Fin (map fst rs))
           = map Fin (map (\<lambda>(v, t). t * v) rs)"
    by (induction rs) (auto simp: times_fl_def)
  have q: "map (\<lambda>t. t * t) (map Fin (map snd rs)) = map Fin (map (\<lambda>(v, t). t * t) rs)"
    by (induction rs) (auto simp: times_fl_def)
  have l: "map fst rs \<noteq> []" "map snd rs \<noteq> []" "map (\<lambda>(v, t). t * v) rs \<noteq> []"
    "map (\<lambda>(v, t). t * t) rs \<noteq> []"
    using ne by simp_all
  have e: "E (map Fin (map fst rs)) = Fin Ev" "E (map Fin (map snd rs)) = Fin Et"
    "E (map Fin (map (\<lambda>(v, t). t * v) rs)) = Fin Etv"
    "E (map Fin (map (\<lambda>(v, t). t * t) rs)) = Fin Ett"
    using E_Fin[OF l(1)] E_Fin[OF l(2)] E_Fin[OF l(3)] E_Fin[OF l(4)]
    by (simp_all add: Ev_def Et_def Etv_def Ett_def n_def del: map_map)
  show "lsq_slope ?S = Fin ((Etv - Et * Ev) / (Ett - Et * Et))"
    unfolding lsq_slope_def Let_def f s p q e using D
    by (simp add: times_fl_def minus_fl_def divide_fl_def)
  show "lsq_intercept ?S = Fin ((Ett * Ev - Et * Etv) / (Ett - Et * Et))"
    unfolding lsq_intercept_def Let_def f s p q e using D
    by (simp add: times_fl_def minus_fl_def divide_fl_def)
qed

lemma spread_pos_pairs:
  fixes rs :: "(real \<times> real) list"
  assumes "a \<in> snd ` set rs" and "b \<in> snd ` set rs" and "a \<noteq> b"
  shows "0 < (\<Sum>(v, t)\<leftarrow>rs. t * t) / real (length rs)
             - sum_list (map snd rs) / real (length rs) * (sum_list (map snd rs) / real (length rs))"
proof -
  have "(\<Sum>(v, t)\<leftarrow>rs. t * t) = (\<Sum>t\<leftarrow>map snd rs. t * t)"
    by (induction rs) auto
  then show ?thesis
    using spread_pos[of a "map snd rs" b] assms by simp
qed

text \<open>The line \<open>3 t + 7\<close> is recovered from its samples at times that are not all equal.\<close>

lemma lsq_line:
  fixes ts :: "real list"
  assumes "a \<in> set ts" and "b \<in> set ts" and "a \<noteq> b"
  shows "lsq_slope (map (\<lambda>t. (Fin (3 * t + 7), Fin t)) ts) = Fin 3"
    and "lsq_intercept (map (\<lambda>t. (Fin (3 * t + 7), Fin t)) ts) = Fin 7"
proof -
  define rs where "rs = map (\<lambda>t. (3 * t + 7, t)) ts"
  define n where "n = real (length ts)"
  define s1 where "s1 = sum_list ts"
  define s2 where "s2 = (\<Sum>t\<leftarrow>ts. t * t)"
  have S: "map (\<lambda>t. (Fin (3 * t + 7), Fin t)) ts = map (\<lambda>(v, t). (Fin v, Fin t)) rs"
    by (simp add: rs_def comp_def)
  have ne: "rs \<noteq> []" using assms(1) by (auto simp: rs_def)
  have n: "0 < n" using assms(1) by (cases ts) (simp_all add: n_def)
  have len: "real (length rs) = n" by (simp add: rs_def n_def)
  have sv: "sum_list (map fst rs) = 3 * s1 + 7 * n"
    unfolding rs_def s1_def n_def by (induction ts) (simp_all add: algebra_simps)
  have st: "sum_list (map snd rs) = s1"
    unfolding rs_def s1_def by (induction ts) simp_all
  have stv: "(\<Sum>(v, t)\<leftarrow>rs. t * v) = 3 * s2 + 7 * s1"
    unfolding rs_def s1_def s2_def by (induction ts) (simp_all add: algebra_simps)
  have stt: "(\<Sum>(v, t)\<leftarrow>rs. t * t) = s2"
    unfolding rs_def s2_def by (induction ts) simp_all
  have D: "0 < s2 / n - s1 / n * (s1 / n)"
    using spread_pos[OF assms] by (simp add: n_def s1_def s2_def)
  then have D0: "(\<Sum>(v, t)\<leftarrow>rs. t * t) / real (length rs)
                 - sum_list (map snd rs) / real (length rs) * (sum_list (map snd rs) / real (length rs)) \<noteq> 0"
    by (simp add: stt st len)
  define X where "X = s2 / n - s1 / n * (s1 / n)"
  have X: "0 < X" using D by (simp add: X_def)
  have e1: "(3 * s2 + 7 * s1) / n - s1 / n * ((3 * s1 + 7 * n) / n) = 3 * X"
    using n by (simp add: X_def field_simps)
  have e2: "s2 / n * ((3 * s1 + 7 * n) / n) - s1 / n * ((3 * s2 + 7 * s1) / n) = 7 * X"
    using n by (simp add: X_def field_simps)
  show "lsq_slope (map (\<lambda>t. (Fin (3 * t + 7), Fin t)) ts) = Fin 3"
    unfolding S lsq_finite(1)[OF ne D0] sv st stv stt len e1 X_def[symmetric] using X by simp
  show "lsq_intercept (map (\<lambda>t. (Fin (3 * t + 7), Fin t)) ts) = Fin 7"
    unfolding S lsq_finite(2)[OF ne D0] sv st stv stt len e2 X_def[symmetric] using X by simp
qed

lemma length_trend_input: "length (trend_input steps x) = length x"
  by (simp add: trend_input_def)

text \<open>
  Claim C1, as the code has it.  At every output position and bin the trend holds, on the
  coefficient axis, the intercept at index 0 and the slope at index 1 of the closed-form
  least-squares line through the samples of that position that fall into the bin, however
  the input is cut into chunks.  When these samples lie on \<open>y = 3 t + 7\<close> and their times
  are not all equal, the coefficients are exactly \<open>7\<close> and \<open>3\<close>.
\<close>

theorem climtrend_least_squares:
  assumes "chunking_of (trend_input steps x) chunks" and "q < length x" and "b < nbins"
  shows "Trend_getview (length x) nbins chunks ! q ! b
           = [lsq_intercept (in_bin b (trend_input steps x ! q)),
              lsq_slope (in_bin b (trend_input steps x ! q))]
       \<and> (\<forall>ts. in_bin b (trend_input steps x ! q) = map (\<lambda>t. (Fin (3 * t + 7), Fin t)) ts
                \<and> (\<exists>t1\<in>set ts. \<exists>t2\<in>set ts. t1 \<noteq> t2)
             \<longrightarrow> Trend_getview (length x) nbins chunks ! q ! b = [Fin 7, Fin 3])"
proof -
  have q: "q < length (trend_input steps x)"
    using assms(2) by (simp add: length_trend_input)
  have t: "Trend_getview (length x) nbins chunks ! q ! b
           = [lsq_intercept (in_bin b (trend_input steps x ! q)),
              lsq_slope (in_bin b (trend_input steps x ! q))]"
    using Trend_at[OF assms(1) q assms(3)] by (simp add: length_trend_input)
  show ?thesis
    unfolding t by (auto simp: lsq_line)
qed

theorem climtrend_least_squares_witness:
  "chunking_of
     (trend_input [(0, Fin 0), (1, Fin 1), (0, Fin 2), (1, Fin 3)] [[Fin 7, Fin 10, Fin 13, Fin 16]])
     [[(0, [(0, (Fin 7, Fin 0)), (1, (Fin 10, Fin 1))])],
      [(0, [(0, (Fin 13, Fin 2)), (1, (Fin 16, Fin 3))])]]
   \<and> Trend_getview 1 2
        [[(0, [(0, (Fin 7, Fin 0)), (1, (Fin 10, Fin 1))])],
         [(0, [(0, (Fin 13, Fin 2)), (1, (Fin 16, Fin 3))])]] ! 0 ! 0 = [Fin 7, Fin 3]"
proof -
  let ?steps = "[(0::nat, Fin 0), (1, Fin 1), (0, Fin 2), (1, Fin 3)]"
  let ?x = "[[Fin 7, Fin 10, Fin 13, Fin 16]]"
  let ?c = "[[(0::nat, [(0::nat, (Fin 7, Fin 0)), (1, (Fin 10, Fin 1))])],
             [(0, [(0, (Fin 13, Fin 2)), (1, (Fin 16, Fin 3))])]]"
  have c: "chunking_of (trend_input ?steps ?x) ?c"
    by (simp add: chunking_of_def contribs_def rows_def trend_input_def)
  have s: "in_bin 0 (trend_input ?steps ?x ! 0) = map (\<lambda>t. (Fin (3 * t + 7), Fin t)) [0, 2]"
    by (simp add: trend_input_def)
  have d: "\<exists>t1\<in>set [0, 2 :: real]. \<exists>t2\<in>set [0, 2]. t1 \<noteq> t2"
    by (rule bexI[of _ 0], rule bexI[of _ 2]) simp_all
  have lx: "length ?x = 1" by simp
  have lq: "0 < length ?x" "(0::nat) < 2" by simp_all
  from climtrend_least_squares[OF c lq] s d
  have "Trend_getview (length ?x) 2 ?c ! 0 ! 0 = [Fin 7, Fin 3]" by blast
  then show ?thesis using c unfolding lx by simp
qed

text \<open>
  The two samples of \<open>two_days\<close> fall into two different bins; each bin holds a single
  time, the denominator \<open>E[t\<^sup>2] - E[t]\<^sup>2\<close> is zero, and all four coefficients are NaN.
\<close>

lemma chunking_two_days:
  "chunking_of (trend_input [(0, Fin 0), (1, Fin 86400)] [[Fin 7, Fin 259207]]) two_days"
  by (simp add: chunking_of_def contribs_def rows_def trend_input_def two_days_def)

lemma Trend_getview_two_days: "Trend_getview 1 2 two_days = [[[NaN, NaN], [NaN, NaN]]]"
  unfolding Trend_cell
  by (simp add: as_array2_def contribs_def rows_def lsq_slope_def lsq_intercept_def E_def
        Let_def fl_of_int_def plus_fl_def minus_fl_def times_fl_def divide_fl_def zero_fl_def
        inf_of_sign_def eval_nat_numeral two_days_def)

text \<open>
  Claim C1 as stated fails on these two samples, taken at evenly spaced times on a time
  axis with more than one time step: the trend does not recover the slope 3 and the
  intercept 7.
\<close>

theorem climtrend_single_sample_bins:
  "chunking_of (trend_input [(0, Fin 0), (1, Fin 86400)] [[Fin 7, Fin 259207]]) two_days
   \<and> Fin 259207 = Fin (3 * 86400 + 7)
   \<and> Trend_getview 1 2 two_days = [[[NaN, NaN], [NaN, NaN]]]
   \<and> Trend_getview 1 2 two_days ! 0 ! 0 \<noteq> [Fin 7, Fin 3]"
  using chunking_two_days Trend_getview_two_days by simp

subsection \<open>Removing the trend\<close>

lemma finite_pairs_obtain:
  "list_all (\<lambda>(v, t). isfinite v \<and> isfinite t) S \<Longrightarrow>
   \<exists>rs. S = map (\<lambda>(v, t). (Fin v, Fin t)) rs"
proof (induction S)
  case Nil
  then show ?case by simp
next
  case (Cons e S)
  then obtain rs where rs: "S = map (\<lambda>(v, t). (Fin v, Fin t)) rs" by auto
  obtain v t where e: "e = (v, t)" by (cases e)
  from Cons.prems e obtain a b where "v = Fin a" "t = Fin b"
    by (cases v; cases t) simp_all
  then have "e # S = map (\<lambda>(v, t). (Fin v, Fin t)) ((a, b) # rs)"
    using e rs by simp
  then show ?case by (rule exI[of _ "(a, b) # rs"])
qed

lemma length_Trend_getview: "length (Trend_getview nq nbins chunks) = nq"
  by (simp add: Trend_cell as_array2_def)

lemma nth_trend_input:
  assumes "q < length x" and "j < length (x ! q)" and "j < length steps"
  shows "trend_input steps x ! q ! j = (fst (steps ! j), x ! q ! j, snd (steps ! j))"
  using assms by (simp add: trend_input_def case_prod_beta)

lemma own_sample_in_bin:
  assumes "q < length x" and "j < length (x ! q)" and "j < length steps"
  shows "(x ! q ! j, snd (steps ! j)) \<in> set (in_bin (fst (steps ! j)) (trend_input steps x ! q))"
proof -
  have "j < length (trend_input steps x ! q)"
    using assms by (simp add: trend_input_def)
  then have "trend_input steps x ! q ! j \<in> set (trend_input steps x ! q)"
    by (rule nth_mem)
  then have "(fst (steps ! j), x ! q ! j, snd (steps ! j)) \<in> set (trend_input steps x ! q)"
    by (simp add: nth_trend_input[OF assms])
  then show ?thesis by (force simp: in_bin_def)
qed

lemma detrend_nth:
  assumes "q < length x" and "j < length (x ! q)" and "j < length steps"
  shows "detrend steps nbins chunks x ! q ! j
         = x ! q ! j
           - from_trend_getview steps (Trend_getview (length x) nbins chunks) ! q ! j"
  using assms
  by (simp add: detrend_def from_trend_getview_def length_Trend_getview)

lemma from_trend_nth:
  assumes "q < length coef" and "j < length steps"
  shows "from_trend_getview steps coef ! q ! j
         = (coef ! q ! fst (steps ! j) ! 1) * snd (steps ! j) + (coef ! q ! fst (steps ! j) ! 0)"
  using assms by (simp add: from_trend_getview_def case_prod_beta)

text \<open>
  Claim C6, as the code has it.  Every element of \<open>detrend(x)\<close> is the element of \<open>x\<close> minus
  \<open>A t + B\<close>, with the time \<open>t\<close> of the element and the least-squares slope \<open>A\<close> and
  intercept \<open>B\<close> of the samples in the element's bin.  When these samples are finite and
  their times are not all equal, adding the reconstructed trend back to the detrended
  element gives the element of \<open>x\<close> again.
\<close>

theorem detrend_round_trip:
  assumes "chunking_of (trend_input steps x) chunks" and "q < length x"
    and "j < length (x ! q)" and "j < length steps" and "fst (steps ! j) < nbins"
  shows "detrend steps nbins chunks x ! q ! j
           = x ! q ! j
             - (lsq_slope (in_bin (fst (steps ! j)) (trend_input steps x ! q)) * snd (steps ! j)
                + lsq_intercept (in_bin (fst (steps ! j)) (trend_input steps x ! q)))
       \<and> (list_all (\<lambda>(v, t). isfinite v \<and> isfinite t)
             (in_bin (fst (steps ! j)) (trend_input steps x ! q))
          \<and> (\<exists>t1\<in>snd ` set (in_bin (fst (steps ! j)) (trend_input steps x ! q)).
              \<exists>t2\<in>snd ` set (in_bin (fst (steps ! j)) (trend_input steps x ! q)). t1 \<noteq> t2)
          \<longrightarrow> detrend steps nbins chunks x ! q ! j
                + from_trend_getview steps (Trend_getview (length x) nbins chunks) ! q ! j
              = x ! q ! j)"
proof -
  let ?S = "in_bin (fst (steps ! j)) (trend_input steps x ! q)"
  let ?recon = "from_trend_getview steps (Trend_getview (length x) nbins chunks) ! q ! j"
  have q: "q < length (trend_input steps x)"
    using assms(2) by (simp add: length_trend_input)
  have coef: "Trend_getview (length x) nbins chunks ! q ! fst (steps ! j)
              = [lsq_intercept ?S, lsq_slope ?S]"
    using Trend_at[OF assms(1) q assms(5)] by (simp add: length_trend_input)
  have recon: "?recon = lsq_slope ?S * snd (steps ! j) + lsq_intercept ?S"
    using assms(2,4) by (simp add: from_trend_nth length_Trend_getview coef)
  have first: "detrend steps nbins chunks x ! q ! j = x ! q ! j - ?recon"
    using assms(2,3,4) by (rule detrend_nth)
  have second: "x ! q ! j - ?recon + ?recon = x ! q ! j"
    if fin: "list_all (\<lambda>(v, t). isfinite v \<and> isfinite t) ?S"
      and two: "\<exists>t1\<in>snd ` set ?S. \<exists>t2\<in>snd ` set ?S. t1 \<noteq> t2"
  proof -
    from finite_pairs_obtain[OF fin] obtain rs where rs: "?S = map (\<lambda>(v, t). (Fin v, Fin t)) rs"
      by blast
    have times: "snd ` set ?S = Fin ` snd ` set rs"
      unfolding rs by (force simp: image_iff)
    from two obtain a b where ab: "a \<in> snd ` set rs" "b \<in> snd ` set rs" "a \<noteq> b"
      unfolding times by auto
    have ne: "rs \<noteq> []" using ab(1) by auto
    have D: "(\<Sum>(v, t)\<leftarrow>rs. t * t) / real (length rs)
             - sum_list (map snd rs) / real (length rs) * (sum_list (map snd rs) / real (length rs)) \<noteq> 0"
      using spread_pos_pairs[OF ab] by simp
    obtain A B where AB: "lsq_slope ?S = Fin A" "lsq_intercept ?S = Fin B"
      unfolding rs using lsq_finite[OF ne D] by blast
    have "(x ! q ! j, snd (steps ! j)) \<in> set ?S"
      using assms(2,3,4) by (rule own_sample_in_bin)
    then obtain v t where vt: "x ! q ! j = Fin v" "snd (steps ! j) = Fin t"
      unfolding rs by auto
    show ?thesis
      unfolding recon AB vt by (simp add: plus_fl_def minus_fl_def times_fl_def)
  qed
  show ?thesis
    unfolding first using recon second by auto
qed

theorem detrend_round_trip_witness:
  "chunking_of
     (trend_input [(0, Fin 0), (1, Fin 1), (0, Fin 2), (1, Fin 3)] [[Fin 1, Fin 5, Fin 2, Fin 4]])
     [[(0, [(0, (Fin 1, Fin 0)), (1, (Fin 5, Fin 1))])],
      [(0, [(0, (Fin 2, Fin 2)), (1, (Fin 4, Fin 3))])]]
   \<and> detrend [(0, Fin 0), (1, Fin 1), (0, Fin 2), (1, Fin 3)] 2
         [[(0, [(0, (Fin 1, Fin 0)), (1, (Fin 5, Fin 1))])],
          [(0, [(0, (Fin 2, Fin 2)), (1, (Fin 4, Fin 3))])]]
         [[Fin 1, Fin 5, Fin 2, Fin 4]] ! 0 ! 2
       + from_trend_getview [(0, Fin 0), (1, Fin 1), (0, Fin 2), (1, Fin 3)]
           (Trend_getview 1 2
              [[(0, [(0, (Fin 1, Fin 0)), (1, (Fin 5, Fin 1))])],
               [(0, [(0, (Fin 2, Fin 2)), (1, (Fin 4, Fin 3))])]]) ! 0 ! 2
       = Fin 2"
proof -
  let ?steps = "[(0::nat, Fin 0), (1, Fin 1), (0, Fin 2), (1, Fin 3)]"
  let ?x = "[[Fin 1, Fin 5, Fin 2, Fin 4]]"
  let ?c = "[[(0::nat, [(0::nat, (Fin 1, Fin 0)), (1, (Fin 5, Fin 1))])],
             [(0, [(0, (Fin 2, Fin 2)), (1, (Fin 4, Fin 3))])]]"
  have c: "chunking_of (trend_input ?steps ?x) ?c"
    by (simp add: chunking_of_def contribs_def rows_def trend_input_def)
  have l: "0 < length ?x" "2 < length (?x ! 0)" "2 < length ?steps" "fst (?steps ! 2) < 2"
    by simp_all
  have s: "in_bin (fst (?steps ! 2)) (trend_input ?steps ?x ! 0) = [(Fin 1, Fin 0), (Fin 2, Fin 2)]"
    by (simp add: trend_input_def)
  have f: "list_all (\<lambda>(v, t). isfinite v \<and> isfinite t)
             (in_bin (fst (?steps ! 2)) (trend_input ?steps ?x ! 0))"
    unfolding s by simp
  have d: "\<exists>t1\<in>snd ` set (in_bin (fst (?steps ! 2)) (trend_input ?steps ?x ! 0)).
           \<exists>t2\<in>snd ` set (in_bin (fst (?steps ! 2)) (trend_input ?steps ?x ! 0)). t1 \<noteq> t2"
    unfolding s by (rule bexI[of _ "Fin 0"], rule bexI[of _ "Fin 2"]) simp_all
  have lx: "length ?x = 1" and x2: "?x ! 0 ! 2 = Fin 2" by simp_all
  from detrend_round_trip[OF c l] f d
  have "detrend ?steps 2 ?c ?x ! 0 ! 2
        + from_trend_getview ?steps (Trend_getview (length ?x) 2 ?c) ! 0 ! 2 = ?x ! 0 ! 2"
    by blast
  then show ?thesis using c unfolding lx x2 by simp
qed

text \<open>
  Claim C6 as stated fails on the two samples one day apart: the coefficients of their
  bins are NaN, so is the reconstructed trend, so is the detrended series, and adding the
  trend back gives NaN instead of the first element \<open>7\<close> of the input.
\<close>

theorem detrend_single_sample_bins:
  "chunking_of (trend_input [(0, Fin 0), (1, Fin 86400)] [[Fin 7, Fin 259207]]) two_days
   \<and> from_trend_getview [(0, Fin 0), (1, Fin 86400)] (Trend_getview 1 2 two_days) = [[NaN, NaN]]
   \<and> detrend [(0, Fin 0), (1, Fin 86400)] 2 two_days [[Fin 7, Fin 259207]] = [[NaN, NaN]]
   \<and> detrend [(0, Fin 0), (1, Fin 86400)] 2 two_days [[Fin 7, Fin 259207]] ! 0 ! 0
       + from_trend_getview [(0, Fin 0), (1, Fin 86400)] (Trend_getview 1 2 two_days) ! 0 ! 0
       = NaN
   \<and> [[Fin 7, Fin 259207]] ! 0 ! 0 = Fin 7"
proof -
  have t: "Trend_getview (Suc 0) 2 two_days = [[[NaN, NaN], [NaN, NaN]]]"
    using Trend_getview_two_days by simp
  have r: "from_trend_getview [(0, Fin 0), (1, Fin 86400)] (Trend_getview 1 2 two_days)
           = [[NaN, NaN]]"
    by (simp add: t from_trend_getview_def times_fl_def plus_fl_def)
  have d: "detrend [(0, Fin 0), (1, Fin 86400)] 2 two_days [[Fin 7, Fin 259207]] = [[NaN, NaN]]"
    unfolding detrend_def using r by (simp add: minus_fl_def)
  show ?thesis
    unfolding d r using chunking_two_days by (simp add: plus_fl_def)
qed

section \<open>Results about the reductions that skip NaN, on inputs without NaN\<close>

lemma sum_list_isfinite: "list_all isfinite xs \<Longrightarrow> isfinite (sum_list xs)"
proof (induction xs)
  case Nil
  then show ?case by (simp add: zero_fl_def)
next
  case (Cons v xs)
  then show ?case by (cases v; cases "sum_list xs") (simp_all add: plus_fl_def)
qed


lemma nansum2_isfinite: "isfinite a \<Longrightarrow> isfinite b \<Longrightarrow> nansum2 a b = a + b"
  by (cases a; cases b) (simp_all add: plus_fl_def)


lemma isfinite_div_int: "isfinite a \<Longrightarrow> N \<noteq> 0 \<Longrightarrow> isfinite (a / fl_of_int (int N))"
  by (cases a) (simp_all add: divide_fl_def fl_of_int_def)








section \<open>Results about the weighted reductions\<close>

subsection \<open>From weighted chunks to chunks of pairs\<close>

lemma update_slice_Cons:
  "update_slice f ((p, r) # c) out = update_slice f c (out(p := f (out p) r))"
  by (simp add: update_slice_def)

lemma update_slice_map:
  assumes "\<And>e a. e \<in> set c \<Longrightarrow> f a (snd e) = g a (h (snd e))"
  shows "update_slice f c out = update_slice g (map (\<lambda>(p, r). (p, h r)) c) out"
  using assms
proof (induction c arbitrary: out)
  case Nil
  then show ?case by (simp add: update_slice_def)
next
  case (Cons e c)
  obtain p r where e: "e = (p, r)" by (cases e)
  have fg: "f (out p) r = g (out p) (h r)" using Cons.prems[of e "out p"] by (simp add: e)
  have "update_slice f (e # c) out = update_slice f c (out(p := f (out p) r))"
    unfolding e by (rule update_slice_Cons)
  also have "\<dots> = update_slice g (map (\<lambda>(p, r). (p, h r)) c) (out(p := f (out p) r))"
    by (rule Cons.IH) (simp add: Cons.prems)
  also have "\<dots> = update_slice g ((p, h r) # map (\<lambda>(p, r). (p, h r)) c) out"
    unfolding update_slice_Cons fg ..
  finally show ?case by (simp add: e)
qed

lemma for_wchunks_pairs:
  assumes "\<And>wc e a. wc \<in> set wchunks \<Longrightarrow> e \<in> set (fst wc) \<Longrightarrow>
             f wc a (snd e) = g a (pairs_of (snd e) (snd wc))"
  shows "for_wchunks f wchunks out = for_chunks g (map wpairs wchunks) out"
  using assms unfolding for_wchunks_def for_chunks_def
proof (induction wchunks arbitrary: out)
  case Nil
  then show ?case by simp
next
  case (Cons wc wchunks)
  have "update_slice (f wc) (fst wc) out = update_slice g (wpairs wc) out"
    unfolding wpairs_def by (rule update_slice_map) (simp add: Cons.prems)
  then show ?case using Cons by simp
qed

lemma times_weights_pairs:
  "times_weights indata inw = map (\<lambda>(x, w). x * w) (pairs_of indata inw)"
  by (simp add: times_weights_def pairs_of_def map_concat comp_def)

lemma masked_weights_pairs:
  "masked_weights indata inw = map (\<lambda>(x, w). w + x * 0) (pairs_of indata inw)"
  by (simp add: masked_weights_def pairs_of_def map_concat comp_def)

lemma sum_list_Suc_copies: "sum_list (replicate (Suc n) (s::fl)) = s * fl_of_int (int (Suc n))"
proof (induction n)
  case 0
  then show ?case by (cases s) (simp_all add: fl_of_int_def times_fl_def inf_of_sign_def)
next
  case (Suc n)
  have "sum_list (replicate (Suc (Suc n)) s) = s + s * fl_of_int (int (Suc n))"
    using Suc by simp
  also have "\<dots> = s * fl_of_int (int (Suc (Suc n)))"
    by (cases s)
       (simp_all add: fl_of_int_def times_fl_def plus_fl_def inf_of_sign_def algebra_simps)
  finally show ?case .
qed

lemma snd_pairs_of:
  assumes "list_all (\<lambda>r. length r = length inw) indata"
  shows "map snd (pairs_of indata inw) = concat (replicate (length indata) inw)"
  using assms by (induction indata) (simp_all add: pairs_of_def)

lemma sum_list_concat_replicate:
  "sum_list (concat (replicate n (ws::fl list))) = sum_list (replicate n (sum_list ws))"
  by (induction n) simp_all

lemma indata_size_rect:
  assumes "list_all (\<lambda>e. length (snd e) = f \<and> list_all (\<lambda>r. length r = L) (snd e)) c"
  shows "indata_size c = length c * (f * L)"
proof -
  have inner: "sum_list (map length rs) = length rs * L" if "list_all (\<lambda>r. length r = L) rs"
    for rs :: "fl list list"
    using that by (induction rs) simp_all
  show ?thesis
    using assms by (induction c) (simp_all add: indata_size_def inner)
qed

lemma wf_wchunk_entry:
  assumes "wf_wchunk wc" and "e \<in> set (fst wc)"
  shows "snd e \<noteq> []" and "length (snd e) = length (snd (hd (fst wc)))"
    and "list_all (\<lambda>r. length r = length (snd wc)) (snd e)"
  using assms unfolding wf_wchunk_def list_all_iff by blast+

lemma wf_wchunk_nonempty:
  assumes "wf_wchunk wc"
  shows "snd wc \<noteq> []" and "fst wc \<noteq> []"
  using assms unfolding wf_wchunk_def by blast+

lemma broadcast_factor_rect:
  assumes "wf_wchunk wc" and "e \<in> set (fst wc)"
  shows "broadcast_factor wc = int (length (snd e))"
proof -
  let ?f = "length (snd (hd (fst wc)))"
  let ?L = "length (snd wc)"
  define k where "k = ?L * length (fst wc)"
  have rect: "list_all (\<lambda>e. length (snd e) = ?f \<and> list_all (\<lambda>r. length r = ?L) (snd e)) (fst wc)"
    unfolding list_all_iff[of _ "fst wc"]
    using wf_wchunk_entry(2,3)[OF assms(1)] by blast
  have f: "length (snd e) = ?f" using assms by (rule wf_wchunk_entry(2))
  have "0 < ?L" and "0 < length (fst wc)"
    using wf_wchunk_nonempty[OF assms(1)] by simp_all
  then have pos: "int k \<noteq> 0" by (simp add: k_def)
  have "indata_size (fst wc) = ?f * k"
    unfolding indata_size_rect[OF rect] k_def by (simp only: mult_ac)
  then have n: "int (indata_size (fst wc)) = int ?f * int k"
    by (simp only: of_nat_mult)
  have d: "int ?L * int (length (fst wc)) = int k"
    by (simp only: k_def of_nat_mult)
  have "broadcast_factor wc = int ?f * int k div int k"
    unfolding broadcast_factor_def n d ..
  also have "\<dots> = int ?f" using pos by (rule nonzero_mult_div_cancel_right)
  finally show ?thesis by (simp only: f)
qed

text \<open>The sum of the weights of a chunk, times \<open>f\<close>, is the sum of the weights of the
  elements at any of its output positions.\<close>

lemma weights_sum_pairs:
  assumes wf: "wf_wchunk wc" and e: "e \<in> set (fst wc)"
  shows "npsum (snd wc) * fl_of_int (broadcast_factor wc)
         = npsum (map snd (pairs_of (snd e) (snd wc)))"
proof -
  have len: "list_all (\<lambda>r. length r = length (snd wc)) (snd e)" and ne: "snd e \<noteq> []"
    using wf_wchunk_entry[OF wf e] by blast+
  obtain n where n: "length (snd e) = Suc n" using ne by (cases "snd e") simp_all
  show ?thesis
    unfolding npsum_def snd_pairs_of[OF len] broadcast_factor_rect[OF wf e]
      sum_list_concat_replicate n sum_list_Suc_copies ..
qed

lemma wchunks_wf:
  "wchunking_of xw wchunks \<Longrightarrow> wc \<in> set wchunks \<Longrightarrow> wf_wchunk wc"
  by (simp add: wchunking_of_def list_all_iff)

lemma wchunks_pairs: "wchunking_of xw wchunks \<Longrightarrow> chunking_of xw (map wpairs wchunks)"
  by (simp add: wchunking_of_def)

subsection \<open>The value of each weighted reduction at an output position\<close>

lemma WeightedSumVar_at:
  assumes "wchunking_of xw wchunks" and "p < length xw"
  shows "WeightedSumVar_getview (length xw) wchunks ! p
         = sum_list (map (\<lambda>(x, w). x * w) (xw ! p))"
proof -
  have "for_wchunks (\<lambda>wc out indata. out + npsum (times_weights indata (snd wc))) wchunks (\<lambda>p. 0)
        = for_chunks (\<lambda>out ps. out + npsum (map (\<lambda>(x, w). x * w) ps)) (map wpairs wchunks) (\<lambda>p. 0)"
    by (rule for_wchunks_pairs) (simp add: times_weights_pairs)
  then show ?thesis
    using assms(2)
    by (simp add: WeightedSumVar_getview_def as_array_nth
          sum_acc_at[OF wchunks_pairs[OF assms(1)] assms(2)])
qed

lemma WeightedMean_loop:
  assumes "wchunking_of xw wchunks"
  shows "for_wchunks
           (\<lambda>wc (out, W) indata.
              (out + npsum (times_weights indata (snd wc)),
               W + npsum (snd wc) * fl_of_int (broadcast_factor wc)))
           wchunks (\<lambda>p. (0, 0))
         = for_chunks
             (\<lambda>(out, W) ps. (out + npsum (map (\<lambda>(x, w). x * w) ps), W + npsum (map snd ps)))
             (map wpairs wchunks) (\<lambda>p. (0, 0))"
proof (rule for_wchunks_pairs)
  fix wc e and a :: "fl \<times> fl"
  assume "wc \<in> set wchunks" and e: "e \<in> set (fst wc)"
  then have wf: "wf_wchunk wc" using assms by (simp add: wchunks_wf)
  show "(case a of (out, W) \<Rightarrow> \<lambda>indata.
           (out + npsum (times_weights indata (snd wc)),
            W + npsum (snd wc) * fl_of_int (broadcast_factor wc))) (snd e)
        = (case a of (out, W) \<Rightarrow> \<lambda>ps.
             (out + npsum (map (\<lambda>(x, w). x * w) ps), W + npsum (map snd ps)))
            (pairs_of (snd e) (snd wc))"
    by (cases a) (simp add: times_weights_pairs weights_sum_pairs[OF wf e])
qed

lemma WeightedMeanVar_at:
  assumes "wchunking_of xw wchunks" and "p < length xw"
  shows "WeightedMeanVar_getview (length xw) wchunks ! p
         = sum_list (map (\<lambda>(x, w). x * w) (xw ! p)) / sum_list (map snd (xw ! p))"
  using assms(2) unfolding WeightedMeanVar_getview_def WeightedMean_loop[OF assms(1)]
  by (simp add: as_array_def for_chunks_pair
        sum_acc_at[OF wchunks_pairs[OF assms(1)] assms(2)])

lemma fin_or_nan_times: "fin_or_nan x \<Longrightarrow> fin_or_nan w \<Longrightarrow> fin_or_nan (x * w)"
  by (cases x; cases w) (simp_all add: fin_or_nan_def times_fl_def)

lemma fin_or_nan_masked: "fin_or_nan x \<Longrightarrow> fin_or_nan w \<Longrightarrow> fin_or_nan (w + x * 0)"
  by (cases x; cases w) (simp_all add: fin_or_nan_def times_fl_def plus_fl_def zero_fl_def)

lemma WeightedNANSumVar_at:
  assumes "wchunking_of xw wchunks" and "p < length xw"
    and "list_all (\<lambda>(x, w). fin_or_nan x \<and> fin_or_nan w) (xw ! p)"
  shows "WeightedNANSumVar_getview (length xw) wchunks ! p
         = npnansum (map (\<lambda>(x, w). x * w) (xw ! p))"
proof -
  have f: "list_all fin_or_nan (map (\<lambda>(x, w). x * w) (xw ! p))"
    using assms(3) by (auto simp: list_all_iff fin_or_nan_times)
  have "for_wchunks (\<lambda>wc out indata. nansum2 out (npnansum (times_weights indata (snd wc))))
          wchunks (\<lambda>p. 0 * NaN)
        = for_chunks (\<lambda>out ps. nansum2 out (npnansum (map (\<lambda>(x, w). x * w) ps)))
            (map wpairs wchunks) (\<lambda>p. 0 * NaN)"
    by (rule for_wchunks_pairs) (simp add: times_weights_pairs)
  then show ?thesis
    using assms(2)
    by (simp add: WeightedNANSumVar_getview_def as_array_nth
          nansum_acc_at[OF wchunks_pairs[OF assms(1)] assms(2) f])
qed

lemma WeightedNANMeanVar_at:
  assumes "wchunking_of xw wchunks" and "p < length xw"
    and "list_all (\<lambda>(x, w). fin_or_nan x \<and> fin_or_nan w) (xw ! p)"
  shows "WeightedNANMeanVar_getview (length xw) wchunks ! p
         = npnansum (map (\<lambda>(x, w). x * w) (xw ! p))
           / npnansum (map (\<lambda>(x, w). w + x * 0) (xw ! p))"
proof -
  have f: "list_all fin_or_nan (map (\<lambda>(x, w). x * w) (xw ! p))"
    using assms(3) by (auto simp: list_all_iff fin_or_nan_times)
  have g: "list_all fin_or_nan (map (\<lambda>(x, w). w + x * 0) (xw ! p))"
    using assms(3) by (auto simp: list_all_iff fin_or_nan_masked)
  have "for_wchunks
          (\<lambda>wc (out, W) indata.
             (nansum2 out (npnansum (times_weights indata (snd wc))),
              nansum2 W (npnansum (masked_weights indata (snd wc)))))
          wchunks (\<lambda>p. (0 * NaN, 0 * NaN))
        = for_chunks
            (\<lambda>(out, W) ps.
               (nansum2 out (npnansum (map (\<lambda>(x, w). x * w) ps)),
                nansum2 W (npnansum (map (\<lambda>(x, w). w + x * 0) ps))))
            (map wpairs wchunks) (\<lambda>p. (0 * NaN, 0 * NaN))"
    by (rule for_wchunks_pairs) (simp add: times_weights_pairs masked_weights_pairs case_prod_beta)
  then show ?thesis
    using assms(2) unfolding WeightedNANMeanVar_getview_def
    by (simp add: as_array_def for_chunks_pair
          nansum_acc_at[OF wchunks_pairs[OF assms(1)] assms(2) f]
          nansum_acc_at[OF wchunks_pairs[OF assms(1)] assms(2) g])
qed

lemma length_getview_weighted: "length (getview_weighted k m wchunks) = m"
  by (cases k)
     (simp_all add: WeightedSumVar_getview_def WeightedMeanVar_getview_def
        WeightedNANSumVar_getview_def WeightedNANMeanVar_getview_def as_array_def)

lemma getview_weighted_chunk_invariant:
  assumes w1: "wchunking_of xw w1" and w2: "wchunking_of xw w2"
    and f: "wnan_aware k \<longrightarrow> list_all (list_all (\<lambda>(x, w). fin_or_nan x \<and> fin_or_nan w)) xw"
  shows "getview_weighted k (length xw) w1 = getview_weighted k (length xw) w2"
proof (rule nth_equalityI)
  show "length (getview_weighted k (length xw) w1) = length (getview_weighted k (length xw) w2)"
    by (simp add: length_getview_weighted)
next
  fix p
  assume "p < length (getview_weighted k (length xw) w1)"
  then have p: "p < length xw" by (simp add: length_getview_weighted)
  have fp: "wnan_aware k \<Longrightarrow> list_all (\<lambda>(x, w). fin_or_nan x \<and> fin_or_nan w) (xw ! p)"
    using f p by (simp add: list_all_length)
  show "getview_weighted k (length xw) w1 ! p = getview_weighted k (length xw) w2 ! p"
  proof (cases k)
    case KWeightedSum
    then show ?thesis by (simp add: WeightedSumVar_at[OF w1 p] WeightedSumVar_at[OF w2 p])
  next
    case KWeightedMean
    then show ?thesis by (simp add: WeightedMeanVar_at[OF w1 p] WeightedMeanVar_at[OF w2 p])
  next
    case KWeightedNanSum
    with fp have "list_all (\<lambda>(x, w). fin_or_nan x \<and> fin_or_nan w) (xw ! p)" by simp
    then show ?thesis
      using KWeightedNanSum
      by (simp add: WeightedNANSumVar_at[OF w1 p] WeightedNANSumVar_at[OF w2 p])
  next
    case KWeightedNanMean
    with fp have "list_all (\<lambda>(x, w). fin_or_nan x \<and> fin_or_nan w) (xw ! p)" by simp
    then show ?thesis
      using KWeightedNanMean
      by (simp add: WeightedNANMeanVar_at[OF w1 p] WeightedNANMeanVar_at[OF w2 p])
  qed
qed

section \<open>Results about the way the input is cut into chunks\<close>

text \<open>
  Claim C5, in exact arithmetic.  Two ways of cutting the same input into chunks give the
  same result: for every unweighted and every weighted reduction of reduce.py on
  floating-point data (for the ones that skip NaN, on inputs whose elements and weights
  are finite or NaN), for the mean over the bins of a time axis, and for the trend.
\<close>

theorem chunk_split_invariance:
  "(chunking_of x c1 \<and> chunking_of x c2 \<and> (nan_aware k \<longrightarrow> list_all (list_all fin_or_nan) x)
      \<longrightarrow> getview k (length x) inner N c1 = getview k (length x) inner N c2)
   \<and> (wchunking_of xw w1 \<and> wchunking_of xw w2
        \<and> (wnan_aware wk \<longrightarrow> list_all (list_all (\<lambda>(v, w). fin_or_nan v \<and> fin_or_nan w)) xw)
      \<longrightarrow> getview_weighted wk (length xw) w1 = getview_weighted wk (length xw) w2)
   \<and> (chunking_of y d1 \<and> chunking_of y d2
      \<longrightarrow> Mean_getview (length y) nbins d1 = Mean_getview (length y) nbins d2)
   \<and> (chunking_of z e1 \<and> chunking_of z e2
      \<longrightarrow> Trend_getview (length z) nbins' e1 = Trend_getview (length z) nbins' e2)"
  using getview_chunk_invariant getview_weighted_chunk_invariant Mean_chunk_invariant
    Trend_chunk_invariant
  by blast

theorem chunk_split_invariance_witness:
  "chunking_of [[Fin 1, NaN, Fin 5], [Fin 2, Fin 4, NaN]]
     [[(0, [Fin 1, NaN, Fin 5]), (1, [Fin 2, Fin 4, NaN])]]
   \<and> chunking_of [[Fin 1, NaN, Fin 5], [Fin 2, Fin 4, NaN]]
     [[(0, [Fin 1]), (1, [Fin 2])], [(0, [NaN, Fin 5]), (1, [Fin 4, NaN])]]
   \<and> list_all (list_all fin_or_nan) [[Fin 1, NaN, Fin 5], [Fin 2, Fin 4, NaN]]
   \<and> getview KNanVariance 2 1 3 [[(0, [Fin 1, NaN, Fin 5]), (1, [Fin 2, Fin 4, NaN])]]
       = getview KNanVariance 2 1 3 [[(0, [Fin 1]), (1, [Fin 2])], [(0, [NaN, Fin 5]), (1, [Fin 4, NaN])]]
   \<and> wchunking_of [[(Fin 1, Fin 1), (NaN, Fin 2), (Fin 5, Fin 1), (Fin 3, Fin 2)]]
        [([(0, [[Fin 1, NaN], [Fin 5, Fin 3]])], [Fin 1, Fin 2])]
   \<and> wchunking_of [[(Fin 1, Fin 1), (NaN, Fin 2), (Fin 5, Fin 1), (Fin 3, Fin 2)]]
        [([(0, [[Fin 5, Fin 3]])], [Fin 1, Fin 2]), ([(0, [[Fin 1, NaN]])], [Fin 1, Fin 2])]
   \<and> list_all (list_all (\<lambda>(v, w). fin_or_nan v \<and> fin_or_nan w))
        [[(Fin 1, Fin 1), (NaN, Fin 2), (Fin 5, Fin 1), (Fin 3, Fin 2)]]
   \<and> getview_weighted KWeightedNanMean 1 [([(0, [[Fin 1, NaN], [Fin 5, Fin 3]])], [Fin 1, Fin 2])]
       = getview_weighted KWeightedNanMean 1
           [([(0, [[Fin 5, Fin 3]])], [Fin 1, Fin 2]), ([(0, [[Fin 1, NaN]])], [Fin 1, Fin 2])]
   \<and> chunking_of [[(0::nat, Fin 1), (1, Fin 2), (0, Fin 3)]]
        [[(0, [(0, Fin 1), (1, Fin 2), (0, Fin 3)])]]
   \<and> chunking_of [[(0::nat, Fin 1), (1, Fin 2), (0, Fin 3)]]
        [[(0, [(0, Fin 1), (1, Fin 2)])], [(0, [(0, Fin 3)])]]
   \<and> Mean_getview 1 2 [[(0, [(0, Fin 1), (1, Fin 2), (0, Fin 3)])]]
       = Mean_getview 1 2 [[(0, [(0, Fin 1), (1, Fin 2)])], [(0, [(0, Fin 3)])]]
   \<and> chunking_of [[(0::nat, (Fin 7, Fin 0)), (0, (Fin 10, Fin 1))]]
        [[(0, [(0, (Fin 7, Fin 0)), (0, (Fin 10, Fin 1))])]]
   \<and> chunking_of [[(0::nat, (Fin 7, Fin 0)), (0, (Fin 10, Fin 1))]]
        [[(0, [(0, (Fin 10, Fin 1))])], [(0, [(0, (Fin 7, Fin 0))])]]
   \<and> Trend_getview 1 1 [[(0, [(0, (Fin 7, Fin 0)), (0, (Fin 10, Fin 1))])]]
       = Trend_getview 1 1 [[(0, [(0, (Fin 10, Fin 1))])], [(0, [(0, (Fin 7, Fin 0))])]]"
proof -
  let ?x = "[[Fin 1, NaN, Fin 5], [Fin 2, Fin 4, NaN]]"
  let ?c1 = "[[(0, [Fin 1, NaN, Fin 5]), (1, [Fin 2, Fin 4, NaN])]]"
  let ?c2 = "[[(0, [Fin 1]), (1, [Fin 2])], [(0, [NaN, Fin 5]), (1, [Fin 4, NaN])]]"
  let ?xw = "[[(Fin 1, Fin 1), (NaN, Fin 2), (Fin 5, Fin 1), (Fin 3, Fin 2)]]"
  let ?w1 = "[([(0::nat, [[Fin 1, NaN], [Fin 5, Fin 3]])], [Fin 1, Fin 2])]"
  let ?w2 = "[([(0::nat, [[Fin 5, Fin 3]])], [Fin 1, Fin 2]), ([(0, [[Fin 1, NaN]])], [Fin 1, Fin 2])]"
  let ?y = "[[(0::nat, Fin 1), (1, Fin 2), (0, Fin 3)]]"
  let ?d1 = "[[(0::nat, [(0::nat, Fin 1), (1, Fin 2), (0, Fin 3)])]]"
  let ?d2 = "[[(0::nat, [(0::nat, Fin 1), (1, Fin 2)])], [(0, [(0, Fin 3)])]]"
  let ?z = "[[(0::nat, (Fin 7, Fin 0)), (0, (Fin 10, Fin 1))]]"
  let ?e1 = "[[(0::nat, [(0::nat, (Fin 7, Fin 0)), (0, (Fin 10, Fin 1))])]]"
  let ?e2 = "[[(0::nat, [(0::nat, (Fin 10, Fin 1))])], [(0, [(0, (Fin 7, Fin 0))])]]"
  have x: "chunking_of ?x ?c1" "chunking_of ?x ?c2" "list_all (list_all fin_or_nan) ?x"
    by (simp_all add: chunking_of_def contribs_def rows_def fin_or_nan_def)
  have xw: "wchunking_of ?xw ?w1" "wchunking_of ?xw ?w2"
    "list_all (list_all (\<lambda>(v, w). fin_or_nan v \<and> fin_or_nan w)) ?xw"
    by (simp_all add: wchunking_of_def wf_wchunk_def wpairs_def pairs_of_def chunking_of_def
          contribs_def rows_def fin_or_nan_def)
  have y: "chunking_of ?y ?d1" "chunking_of ?y ?d2"
    by (simp_all add: chunking_of_def contribs_def rows_def)
  have z: "chunking_of ?z ?e1" "chunking_of ?z ?e2"
    by (simp_all add: chunking_of_def contribs_def rows_def)
  have lx: "length ?x = 2" and lxw: "length ?xw = 1" and ly: "length ?y = 1"
    and lz: "length ?z = 1" by simp_all
  note inv = chunk_split_invariance
  have g: "getview KNanVariance (length ?x) 1 3 ?c1 = getview KNanVariance (length ?x) 1 3 ?c2"
    by (rule conjunct1[OF inv, THEN mp]) (simp only: x simp_thms)
  have w: "getview_weighted KWeightedNanMean (length ?xw) ?w1
           = getview_weighted KWeightedNanMean (length ?xw) ?w2"
    by (rule conjunct1[OF conjunct2[OF inv], THEN mp]) (simp only: xw simp_thms)
  have m: "Mean_getview (length ?y) 2 ?d1 = Mean_getview (length ?y) 2 ?d2"
    by (rule conjunct1[OF conjunct2[OF conjunct2[OF inv]], THEN mp]) (simp only: y simp_thms)
  have t: "Trend_getview (length ?z) 1 ?e1 = Trend_getview (length ?z) 1 ?e2"
    by (rule conjunct2[OF conjunct2[OF conjunct2[OF inv]], THEN mp]) (simp only: z simp_thms)
  show ?thesis
    by (intro conjI x xw y z g[unfolded lx] w[unfolded lxw] m[unfolded ly] t[unfolded lz])
qed

text \<open>
  Claim C5 as stated fails for the reductions that skip NaN when infinite elements occur:
  \<open>nansum\<close> over \<open>inf, -inf, 1\<close> is NaN when the three elements come in one chunk, and \<open>1\<close>
  when \<open>inf, -inf\<close> come in one chunk and \<open>1\<close> in the next.
\<close>

theorem nansum_depends_on_chunks:
  "chunking_of [[PInf, NInf, Fin 1]] [[(0, [PInf, NInf, Fin 1])]]
   \<and> chunking_of [[PInf, NInf, Fin 1]] [[(0, [PInf, NInf])], [(0, [Fin 1])]]
   \<and> getview KNanSum 1 1 3 [[(0, [PInf, NInf, Fin 1])]] = [NaN]
   \<and> getview KNanSum 1 1 3 [[(0, [PInf, NInf])], [(0, [Fin 1])]] = [Fin 1]"
  by (simp add: chunking_of_def contribs_def rows_def NANSumVar_getview_def
        as_array_def for_chunks_def update_slice_def nansum2_def npnansum_def
        plus_fl_def times_fl_def zero_fl_def)

section \<open>Results about the sums and means that skip NaN, on finite inputs\<close>








text \<open>
  With the default arguments on an axis that carries weights, \<open>sum\<close> is unweighted and
  \<open>nansum\<close> is weighted, whereas the documentation of \<open>nansum\<close> names \<open>False\<close> as the default
  of \<open>weights\<close>.
\<close>

lemma nansum_default_uses_weights:
  "sum_var temp_var [IStr ''lat''] None = Inr SumVar
   \<and> (\<exists>w. nansum temp_var [IStr ''lat''] None = Inr (WeightedNANSumVar w))"
  by (simp add: sum_var_def nansum_def choose_class_def getweights_def getaxis_def
        whichaxis_def has_alias_def temp_var_def lat_axis_def lon_axis_def Var_init_def
        naxes_def)

end
